theory Spec2Isabelle
  imports Main "HOL-Library.Word"
begin

section \<open>JavaScript strings\<close>

text \<open>
  The chat widget is two TypeScript functions: the route handler \<open>POST\<close> (the Stream
  Reformatter) and the component's \<open>sendMessage\<close> / \<open>handleSubmit\<close> (the Incremental Reply
  Renderer). Both work on JavaScript strings, which are sequences of 16-bit code units, and on
  \<open>Uint8Array\<close> chunks, which are sequences of bytes.
\<close>

type_synonym byte = "8 word"
type_synonym cu = "16 word"
type_synonym jstr = "cu list"

text \<open>An ASCII literal of the source, as code units.\<close>

definition asc :: "string \<Rightarrow> jstr" where
  "asc s = map (\<lambda>c. of_nat (of_char c)) s"

text \<open>\<open>s.startsWith(p)\<close>, and \<open>s.split("\n")\<close> (which yields one empty string for the empty string
  and a trailing empty string when \<open>s\<close> ends with a newline).\<close>

definition starts_with :: "jstr \<Rightarrow> jstr \<Rightarrow> bool" where
  "starts_with s p = (take (length p) s = p)"

fun split_nl :: "jstr \<Rightarrow> jstr list" where
  "split_nl [] = [[]]"
| "split_nl (c # cs) =
     (if c = 0x0A then [] # split_nl cs
      else (case split_nl cs of [] \<Rightarrow> [[c]] | l # ls \<Rightarrow> (c # l) # ls))"

text \<open>\<open>s.trim()\<close> removes ECMAScript WhiteSpace and LineTerminator code units from both ends.\<close>

definition is_js_space :: "cu \<Rightarrow> bool" where
  "is_js_space c =
     (c = 0x09 \<or> c = 0x0A \<or> c = 0x0B \<or> c = 0x0C \<or> c = 0x0D \<or> c = 0x20 \<or> c = 0xA0
      \<or> c = 0x1680 \<or> (0x2000 \<le> c \<and> c \<le> 0x200A) \<or> c = 0x2028 \<or> c = 0x2029
      \<or> c = 0x202F \<or> c = 0x205F \<or> c = 0x3000 \<or> c = 0xFEFF)"

definition trim :: "jstr \<Rightarrow> jstr" where
  "trim s = rev (dropWhile is_js_space (rev (dropWhile is_js_space s)))"

definition is_high_surrogate :: "cu \<Rightarrow> bool" where
  "is_high_surrogate c = (0xD800 \<le> c \<and> c \<le> 0xDBFF)"

definition is_low_surrogate :: "cu \<Rightarrow> bool" where
  "is_low_surrogate c = (0xDC00 \<le> c \<and> c \<le> 0xDFFF)"

definition is_surrogate :: "cu \<Rightarrow> bool" where
  "is_surrogate c = (0xD800 \<le> c \<and> c \<le> 0xDFFF)"

section \<open>JSON\<close>

text \<open>
  A parsed JSON value. A number keeps its lexeme (what it denotes as an IEEE double is not
  modelled); an object keeps its members in source order, duplicates included (a lookup takes
  the last one, as \<open>JSON.parse\<close> lets a later duplicate win).
\<close>

datatype json =
    JNull
  | JBool bool
  | JNum jstr
  | JStr jstr
  | JArr "json list"
  | JObj "(jstr \<times> json) list"

subsection \<open>\<open>JSON.stringify\<close> of a string (ECMAScript QuoteJSONString)\<close>

definition hex_digit :: "nat \<Rightarrow> cu" where
  "hex_digit n = (if n < 10 then of_nat (48 + n) else of_nat (87 + n))"

definition unicode_escape :: "cu \<Rightarrow> jstr" where
  "unicode_escape c =
     [0x5C, 0x75, hex_digit (unat c div 4096), hex_digit (unat c div 256 mod 16),
      hex_digit (unat c div 16 mod 16), hex_digit (unat c mod 16)]"

text \<open>One code unit that is not part of a surrogate pair: the two-character escapes, a
  \<open>\uXXXX\<close> escape for the other control characters and for a lone surrogate, the unit itself
  otherwise.\<close>

definition quote_unit :: "cu \<Rightarrow> jstr" where
  "quote_unit c =
     (if c = 0x08 then [0x5C, 0x62]
      else if c = 0x09 then [0x5C, 0x74]
      else if c = 0x0A then [0x5C, 0x6E]
      else if c = 0x0C then [0x5C, 0x66]
      else if c = 0x0D then [0x5C, 0x72]
      else if c = 0x22 then [0x5C, 0x22]
      else if c = 0x5C then [0x5C, 0x5C]
      else if c < 0x20 \<or> is_high_surrogate c \<or> is_low_surrogate c then unicode_escape c
      else [c])"

fun quote_units :: "jstr \<Rightarrow> jstr" where
  "quote_units [] = []"
| "quote_units [c] = quote_unit c"
| "quote_units (c # d # cs) =
     (if is_high_surrogate c \<and> is_low_surrogate d then c # d # quote_units cs
      else quote_unit c @ quote_units (d # cs))"

definition QuoteJSONString :: "jstr \<Rightarrow> jstr" where
  "QuoteJSONString s = 0x22 # quote_units s @ [0x22]"

subsection \<open>\<open>JSON.parse\<close>: the lexer\<close>

definition hex_value :: "cu \<Rightarrow> nat option" where
  "hex_value c =
     (if 0x30 \<le> c \<and> c \<le> 0x39 then Some (unat c - 48)
      else if 0x41 \<le> c \<and> c \<le> 0x46 then Some (unat c - 55)
      else if 0x61 \<le> c \<and> c \<le> 0x66 then Some (unat c - 87)
      else None)"

definition unescape :: "cu \<Rightarrow> cu option" where
  "unescape e =
     (if e = 0x22 then Some 0x22
      else if e = 0x5C then Some 0x5C
      else if e = 0x2F then Some 0x2F
      else if e = 0x62 then Some 0x08
      else if e = 0x66 then Some 0x0C
      else if e = 0x6E then Some 0x0A
      else if e = 0x72 then Some 0x0D
      else if e = 0x74 then Some 0x09
      else None)"

definition hex4 :: "cu \<Rightarrow> cu \<Rightarrow> cu \<Rightarrow> cu \<Rightarrow> cu option" where
  "hex4 h1 h2 h3 h4 =
     (case (hex_value h1, hex_value h2, hex_value h3, hex_value h4) of
        (Some a, Some b, Some c, Some d) \<Rightarrow> Some (of_nat (((a * 16 + b) * 16 + c) * 16 + d))
      | _ \<Rightarrow> None)"

definition cons_fst :: "'a \<Rightarrow> ('a list \<times> 'b) option \<Rightarrow> ('a list \<times> 'b) option" where
  "cons_fst x r = map_option (\<lambda>(s, rest). (x # s, rest)) r"

text \<open>The characters of a string literal after its opening quote: the string and what follows
  the closing quote, or \<open>None\<close> where \<open>JSON.parse\<close> throws a SyntaxError.\<close>

fun lex_string :: "jstr \<Rightarrow> (jstr \<times> jstr) option" where
  "lex_string [] = None"
| "lex_string (c # cs) =
     (if c = 0x22 then Some ([], cs)
      else if c = 0x5C then
        (case cs of
           [] \<Rightarrow> None
         | e # es \<Rightarrow>
             if e = 0x75 then
               (case es of
                  h1 # h2 # h3 # h4 # r \<Rightarrow>
                    (case hex4 h1 h2 h3 h4 of
                       None \<Rightarrow> None
                     | Some u \<Rightarrow> cons_fst u (lex_string r))
                | _ \<Rightarrow> None)
             else
               (case unescape e of
                  None \<Rightarrow> None
                | Some u \<Rightarrow> cons_fst u (lex_string es)))
      else if c < 0x20 then None
      else cons_fst c (lex_string cs))"

definition is_digit :: "cu \<Rightarrow> bool" where
  "is_digit c = (0x30 \<le> c \<and> c \<le> 0x39)"

definition lex_digits :: "jstr \<Rightarrow> (jstr \<times> jstr) option" where
  "lex_digits s =
     (let ds = takeWhile is_digit s in if ds = [] then None else Some (ds, dropWhile is_digit s))"

definition lex_int :: "jstr \<Rightarrow> (jstr \<times> jstr) option" where
  "lex_int s =
     (case lex_digits s of
        None \<Rightarrow> None
      | Some (ds, r) \<Rightarrow> if hd ds = 0x30 \<and> length ds > 1 then None else Some (ds, r))"

definition lex_frac :: "jstr \<Rightarrow> (jstr \<times> jstr) option" where
  "lex_frac s =
     (case s of
        c # cs \<Rightarrow>
          if c = 0x2E then
            (case lex_digits cs of None \<Rightarrow> None | Some (ds, r) \<Rightarrow> Some (c # ds, r))
          else Some ([], s)
      | [] \<Rightarrow> Some ([], s))"

definition lex_exp :: "jstr \<Rightarrow> (jstr \<times> jstr) option" where
  "lex_exp s =
     (case s of
        c # cs \<Rightarrow>
          if c = 0x65 \<or> c = 0x45 then
            (case cs of
               g # gs \<Rightarrow>
                 if g = 0x2B \<or> g = 0x2D then
                   (case lex_digits gs of None \<Rightarrow> None | Some (ds, r) \<Rightarrow> Some (c # g # ds, r))
                 else
                   (case lex_digits cs of None \<Rightarrow> None | Some (ds, r) \<Rightarrow> Some (c # ds, r))
             | [] \<Rightarrow> None)
          else Some ([], s)
      | [] \<Rightarrow> Some ([], s))"

definition lex_number :: "jstr \<Rightarrow> (jstr \<times> jstr) option" where
  "lex_number s =
     (let (sign, s1) = (case s of c # cs \<Rightarrow> if c = 0x2D then ([c], cs) else ([], s) | [] \<Rightarrow> ([], s))
      in case lex_int s1 of
           None \<Rightarrow> None
         | Some (ip, s2) \<Rightarrow>
             (case lex_frac s2 of
                None \<Rightarrow> None
              | Some (fp, s3) \<Rightarrow>
                  (case lex_exp s3 of
                     None \<Rightarrow> None
                   | Some (ep, s4) \<Rightarrow> Some (sign @ ip @ fp @ ep, s4))))"

datatype token =
    TLBrace | TRBrace | TLBrack | TRBrack | TColon | TComma
  | TString jstr | TNumber jstr | TTrue | TFalse | TNull

definition is_json_space :: "cu \<Rightarrow> bool" where
  "is_json_space c = (c = 0x09 \<or> c = 0x0A \<or> c = 0x0D \<or> c = 0x20)"

lemma lex_string_shorter: "lex_string cs = Some (s, r) \<Longrightarrow> length r < Suc (length cs)"
proof (induction cs arbitrary: s r rule: lex_string.induct)
  case 1
  then show ?case by simp
next
  case (2 c cs)
  then show ?case
    by (fastforce simp: cons_fst_def split: if_splits list.splits option.splits)
qed

lemma lex_digits_shorter: "lex_digits s = Some (ds, r) \<Longrightarrow> length r < length s"
  unfolding lex_digits_def Let_def
  by (cases s) (auto split: if_splits simp: less_Suc_eq_le length_dropWhile_le)

lemma lex_digits_le: "lex_digits s = Some (ds, r) \<Longrightarrow> length r \<le> length s"
  using lex_digits_shorter by fastforce

lemma lex_int_shorter: "lex_int s = Some (ds, r) \<Longrightarrow> length r < length s"
  unfolding lex_int_def by (auto split: option.splits if_splits dest: lex_digits_shorter)

lemma lex_frac_le: "lex_frac s = Some (ds, r) \<Longrightarrow> length r \<le> length s"
  unfolding lex_frac_def
  by (auto split: list.splits option.splits if_splits dest!: lex_digits_le)

lemma lex_exp_le: "lex_exp s = Some (ds, r) \<Longrightarrow> length r \<le> length s"
  unfolding lex_exp_def
  by (auto split: list.splits option.splits if_splits dest!: lex_digits_le)

lemma lex_number_shorter: "lex_number s = Some (n, r) \<Longrightarrow> length r < length s"
  unfolding lex_number_def Let_def
  by (auto split: list.splits option.splits if_splits prod.splits
      dest!: lex_int_shorter lex_frac_le lex_exp_le)

function tokenize :: "jstr \<Rightarrow> token list option" where
  "tokenize [] = Some []"
| "tokenize (c # cs) =
     (if is_json_space c then tokenize cs
      else if c = 0x7B then map_option (Cons TLBrace) (tokenize cs)
      else if c = 0x7D then map_option (Cons TRBrace) (tokenize cs)
      else if c = 0x5B then map_option (Cons TLBrack) (tokenize cs)
      else if c = 0x5D then map_option (Cons TRBrack) (tokenize cs)
      else if c = 0x3A then map_option (Cons TColon) (tokenize cs)
      else if c = 0x2C then map_option (Cons TComma) (tokenize cs)
      else if c = 0x22 then
        (case lex_string cs of
           None \<Rightarrow> None
         | Some (s, r) \<Rightarrow> map_option (Cons (TString s)) (tokenize r))
      else if c = 0x2D \<or> is_digit c then
        (case lex_number (c # cs) of
           None \<Rightarrow> None
         | Some (n, r) \<Rightarrow> map_option (Cons (TNumber n)) (tokenize r))
      else if starts_with (c # cs) (asc ''true'') then map_option (Cons TTrue) (tokenize (drop 3 cs))
      else if starts_with (c # cs) (asc ''false'') then map_option (Cons TFalse) (tokenize (drop 4 cs))
      else if starts_with (c # cs) (asc ''null'') then map_option (Cons TNull) (tokenize (drop 3 cs))
      else None)"
  by pat_completeness auto
termination
  by (relation "measure length") (auto dest: lex_string_shorter lex_number_shorter)

subsection \<open>\<open>JSON.parse\<close>: the parser\<close>

text \<open>
  The token list is parsed by a stack machine: a frame per open array or object, and a mode that
  says what may come next. \<open>JSON_parse\<close> returns \<open>None\<close> where \<open>JSON.parse\<close> throws a
  SyntaxError. (An engine's recursion limit on deeply nested input is not modelled.)
\<close>

datatype frame =
    FArr "json list"
  | FObjK "(jstr \<times> json) list"
  | FObjV "(jstr \<times> json) list" jstr

datatype pmode = MValue | MFirstElem | MFirstKey | MKey | MColon | MNext | MEnd json

fun deliver :: "json \<Rightarrow> frame list \<Rightarrow> (pmode \<times> frame list) option" where
  "deliver v [] = Some (MEnd v, [])"
| "deliver v (FArr xs # st) = Some (MNext, FArr (v # xs) # st)"
| "deliver v (FObjV kvs k # st) = Some (MNext, FObjK ((k, v) # kvs) # st)"
| "deliver v (FObjK kvs # st) = None"

fun scalar :: "token \<Rightarrow> json option" where
  "scalar (TString s) = Some (JStr s)"
| "scalar (TNumber n) = Some (JNum n)"
| "scalar TTrue = Some (JBool True)"
| "scalar TFalse = Some (JBool False)"
| "scalar TNull = Some JNull"
| "scalar _ = None"

fun start_value :: "token \<Rightarrow> frame list \<Rightarrow> (pmode \<times> frame list) option" where
  "start_value TLBrack st = Some (MFirstElem, FArr [] # st)"
| "start_value TLBrace st = Some (MFirstKey, FObjK [] # st)"
| "start_value t st = (case scalar t of None \<Rightarrow> None | Some v \<Rightarrow> deliver v st)"

fun close_array :: "frame list \<Rightarrow> (pmode \<times> frame list) option" where
  "close_array (FArr xs # st) = deliver (JArr (rev xs)) st"
| "close_array _ = None"

fun close_object :: "frame list \<Rightarrow> (pmode \<times> frame list) option" where
  "close_object (FObjK kvs # st) = deliver (JObj (rev kvs)) st"
| "close_object _ = None"

fun take_key :: "token \<Rightarrow> frame list \<Rightarrow> (pmode \<times> frame list) option" where
  "take_key (TString k) (FObjK kvs # st) = Some (MColon, FObjV kvs k # st)"
| "take_key _ _ = None"

fun pstep :: "pmode \<Rightarrow> frame list \<Rightarrow> token \<Rightarrow> (pmode \<times> frame list) option" where
  "pstep MValue st t = start_value t st"
| "pstep MFirstElem st t = (if t = TRBrack then close_array st else start_value t st)"
| "pstep MFirstKey st t = (if t = TRBrace then close_object st else take_key t st)"
| "pstep MKey st t = take_key t st"
| "pstep MColon st t = (if t = TColon then Some (MValue, st) else None)"
| "pstep MNext st t =
     (case st of
        FArr xs # _ \<Rightarrow>
          if t = TComma then Some (MValue, st)
          else if t = TRBrack then close_array st else None
      | FObjK kvs # _ \<Rightarrow>
          if t = TComma then Some (MKey, st)
          else if t = TRBrace then close_object st else None
      | _ \<Rightarrow> None)"
| "pstep (MEnd v) st t = None"

fun prun :: "pmode \<Rightarrow> frame list \<Rightarrow> token list \<Rightarrow> json option" where
  "prun m st [] = (case (m, st) of (MEnd v, []) \<Rightarrow> Some v | _ \<Rightarrow> None)"
| "prun m st (t # ts) =
     (case pstep m st t of None \<Rightarrow> None | Some (m', st') \<Rightarrow> prun m' st' ts)"

definition JSON_parse :: "jstr \<Rightarrow> json option" where
  "JSON_parse text = (case tokenize text of None \<Rightarrow> None | Some ts \<Rightarrow> prun MValue [] ts)"

section \<open>UTF-8: \<open>TextEncoder\<close> and \<open>TextDecoder\<close>\<close>

text \<open>
  \<open>decoder.decode(chunk, { stream: true })\<close> is the WHATWG UTF-8 decoder run over the bytes of
  the chunk, its state kept between calls: an incomplete sequence at the end of a chunk is
  completed by the next chunk, an ill-formed sequence yields U+FFFD, and a byte order mark that
  is the first code point of the stream is dropped. Both loops call \<open>decode\<close> only in streaming
  mode, so the decoder is never flushed.
  The standard's \<open>byte & 0x1F\<close> and \<open>(code point << 6) | (byte & 0x3F)\<close> are written with
  \<open>mod\<close> and \<open>*\<close> on natural numbers.
\<close>

record decoder =
  code_point :: nat
  bytes_seen :: nat
  bytes_needed :: nat
  lower_boundary :: nat
  upper_boundary :: nat
  bom_seen :: bool

definition new_decoder :: decoder where
  "new_decoder =
     \<lparr>code_point = 0, bytes_seen = 0, bytes_needed = 0,
      lower_boundary = 0x80, upper_boundary = 0xBF, bom_seen = False\<rparr>"

definition utf8_reset :: "decoder \<Rightarrow> decoder" where
  "utf8_reset d =
     d\<lparr>code_point := 0, bytes_seen := 0, bytes_needed := 0,
       lower_boundary := 0x80, upper_boundary := 0xBF\<rparr>"

text \<open>A byte read when no sequence is open.\<close>

definition utf8_lead :: "decoder \<Rightarrow> nat \<Rightarrow> nat list \<times> decoder" where
  "utf8_lead d b =
     (if b \<le> 0x7F then ([b], d)
      else if 0xC2 \<le> b \<and> b \<le> 0xDF then
        ([], d\<lparr>bytes_needed := 1, code_point := b mod 32\<rparr>)
      else if 0xE0 \<le> b \<and> b \<le> 0xEF then
        ([], d\<lparr>lower_boundary := (if b = 0xE0 then 0xA0 else lower_boundary d),
               upper_boundary := (if b = 0xED then 0x9F else upper_boundary d),
               bytes_needed := 2, code_point := b mod 16\<rparr>)
      else if 0xF0 \<le> b \<and> b \<le> 0xF4 then
        ([], d\<lparr>lower_boundary := (if b = 0xF0 then 0x90 else lower_boundary d),
               upper_boundary := (if b = 0xF4 then 0x8F else upper_boundary d),
               bytes_needed := 3, code_point := b mod 8\<rparr>)
      else ([0xFFFD], d))"

text \<open>The decoder's handler: the code points one byte emits, and the next state. A byte that
  cannot continue the open sequence ends it with U+FFFD and is read again as a lead byte.\<close>

definition utf8_handler :: "decoder \<Rightarrow> byte \<Rightarrow> nat list \<times> decoder" where
  "utf8_handler d byte =
     (let b = unat byte in
      if bytes_needed d = 0 then utf8_lead d b
      else if b < lower_boundary d \<or> upper_boundary d < b then
        (let (out, d') = utf8_lead (utf8_reset d) b in (0xFFFD # out, d'))
      else
        (let d1 = d\<lparr>lower_boundary := 0x80, upper_boundary := 0xBF,
                     code_point := code_point d * 64 + b mod 64,
                     bytes_seen := bytes_seen d + 1\<rparr>
         in if bytes_seen d1 \<noteq> bytes_needed d1 then ([], d1)
            else ([code_point d1], utf8_reset d1)))"

fun utf8_run :: "decoder \<Rightarrow> byte list \<Rightarrow> nat list \<times> decoder" where
  "utf8_run d [] = ([], d)"
| "utf8_run d (b # bs) =
     (let (out1, d1) = utf8_handler d b; (out2, d2) = utf8_run d1 bs in (out1 @ out2, d2))"

definition utf16_units :: "nat \<Rightarrow> jstr" where
  "utf16_units cp =
     (if cp < 0x10000 then [of_nat cp]
      else [of_nat (0xD800 + (cp - 0x10000) div 1024), of_nat (0xDC00 + (cp - 0x10000) mod 1024)])"

definition serialize :: "decoder \<Rightarrow> nat list \<Rightarrow> jstr \<times> decoder" where
  "serialize d cps =
     (case cps of
        [] \<Rightarrow> ([], d)
      | c # cs \<Rightarrow>
          if bom_seen d then (concat (map utf16_units cps), d)
          else ((if c = 0xFEFF then [] else utf16_units c) @ concat (map utf16_units cs),
                d\<lparr>bom_seen := True\<rparr>))"

definition decode_stream :: "decoder \<Rightarrow> byte list \<Rightarrow> jstr \<times> decoder" where
  "decode_stream d chunk = (let (cps, d1) = utf8_run d chunk in serialize d1 cps)"

text \<open>\<open>encoder.encode(s)\<close>: the scalar values of the string (a lone surrogate becomes U+FFFD),
  each as its UTF-8 bytes.\<close>

definition lone_unit :: "cu \<Rightarrow> nat" where
  "lone_unit c = (if is_surrogate c then 0xFFFD else unat c)"

fun scalar_values :: "jstr \<Rightarrow> nat list" where
  "scalar_values [] = []"
| "scalar_values [c] = [lone_unit c]"
| "scalar_values (c # d # cs) =
     (if is_high_surrogate c \<and> is_low_surrogate d
      then (0x10000 + (unat c - 0xD800) * 1024 + (unat d - 0xDC00)) # scalar_values cs
      else lone_unit c # scalar_values (d # cs))"

definition utf8_bytes :: "nat \<Rightarrow> byte list" where
  "utf8_bytes cp =
     (if cp \<le> 0x7F then [of_nat cp]
      else if cp \<le> 0x7FF then [of_nat (0xC0 + cp div 64), of_nat (0x80 + cp mod 64)]
      else if cp \<le> 0xFFFF then
        [of_nat (0xE0 + cp div 4096), of_nat (0x80 + cp div 64 mod 64), of_nat (0x80 + cp mod 64)]
      else
        [of_nat (0xF0 + cp div 262144), of_nat (0x80 + cp div 4096 mod 64),
         of_nat (0x80 + cp div 64 mod 64), of_nat (0x80 + cp mod 64)])"

definition encode :: "jstr \<Rightarrow> byte list" where
  "encode s = concat (map utf8_bytes (scalar_values s))"

section \<open>What the platform does with values that are not strings\<close>

text \<open>
  The upstream provider may send any JSON. For content that is not a string the source still
  calls \<open>if (content)\<close>, \<open>fullContent += content\<close> and \<open>JSON.stringify(content)\<close>; what the
  engine computes there (number formatting, property order, \<open>toString\<close> lookups) is taken as a
  parameter: \<open>num_truthy\<close> is ToBoolean of the number a lexeme denotes, \<open>stringify_other\<close> is
  \<open>JSON.stringify\<close> of a value that is not a string, and \<open>to_string_other\<close> is its ToString
  (\<open>None\<close> where ToPrimitive throws a TypeError). Strings are computed by the definitions above.
\<close>

record platform =
  num_truthy :: "jstr \<Rightarrow> bool"
  stringify_other :: "json \<Rightarrow> jstr"
  to_string_other :: "json \<Rightarrow> jstr option"

definition JSON_stringify :: "platform \<Rightarrow> json \<Rightarrow> jstr" where
  "JSON_stringify P v = (case v of JStr s \<Rightarrow> QuoteJSONString s | _ \<Rightarrow> stringify_other P v)"

definition to_string :: "platform \<Rightarrow> json \<Rightarrow> jstr option" where
  "to_string P v = (case v of JStr s \<Rightarrow> Some s | _ \<Rightarrow> to_string_other P v)"

text \<open>\<open>if (content)\<close>; \<open>None\<close> is \<open>undefined\<close>.\<close>

fun truthy :: "platform \<Rightarrow> json option \<Rightarrow> bool" where
  "truthy P None = False"
| "truthy P (Some JNull) = False"
| "truthy P (Some (JBool b)) = b"
| "truthy P (Some (JNum n)) = num_truthy P n"
| "truthy P (Some (JStr s)) = (s \<noteq> [])"
| "truthy P (Some (JArr xs)) = True"
| "truthy P (Some (JObj kvs)) = True"

text \<open>
  Property reads on a value that came out of \<open>JSON.parse\<close>, for the names the source uses
  (\<open>choices\<close>, \<open>delta\<close>, \<open>content\<close>, none of which a prototype defines) and for the index \<open>0\<close>.
  \<open>opt_chain v f\<close> is \<open>v?.f\<close>: \<open>undefined\<close> when \<open>v\<close> is \<open>null\<close> or \<open>undefined\<close>.
\<close>

definition get_member :: "json \<Rightarrow> jstr \<Rightarrow> json option" where
  "get_member v k = (case v of JObj kvs \<Rightarrow> map_of (rev kvs) k | _ \<Rightarrow> None)"

definition get_first :: "json \<Rightarrow> json option" where
  "get_first v =
     (case v of
        JArr xs \<Rightarrow> (case xs of [] \<Rightarrow> None | x # _ \<Rightarrow> Some x)
      | JStr s \<Rightarrow> (case s of [] \<Rightarrow> None | c # _ \<Rightarrow> Some (JStr [c]))
      | JObj kvs \<Rightarrow> map_of (rev kvs) (asc ''0'')
      | _ \<Rightarrow> None)"

definition opt_chain :: "json option \<Rightarrow> (json \<Rightarrow> json option) \<Rightarrow> json option" where
  "opt_chain v f = (case v of None \<Rightarrow> None | Some x \<Rightarrow> if x = JNull then None else f x)"

datatype js_error = SyntaxError | TypeError

text \<open>\<open>parsed.choices?.[0]?.delta?.content\<close>: reading \<open>choices\<close> of \<open>null\<close> throws.\<close>

definition delta_content :: "json \<Rightarrow> js_error + json option" where
  "delta_content parsed =
     (if parsed = JNull then Inl TypeError
      else Inr (opt_chain
                  (opt_chain (opt_chain (get_member parsed (asc ''choices'')) get_first)
                     (\<lambda>choice. get_member choice (asc ''delta'')))
                  (\<lambda>delta. get_member delta (asc ''content''))))"

section \<open>The Stream Reformatter: \<open>transformStream.transform\<close>\<close>

text \<open>The two kinds of line the transformer enqueues, before \<open>encoder.encode\<close>.\<close>

definition finish_line :: jstr where
  "finish_line =
     asc ''d:{'' @ QuoteJSONString (asc ''type'') @ asc '':'' @ QuoteJSONString (asc ''finish'')
     @ asc '','' @ QuoteJSONString (asc ''finishReason'') @ asc '':''
     @ QuoteJSONString (asc ''stop'') @ asc ''}'' @ [0x0A]"

definition delta_line :: "platform \<Rightarrow> json \<Rightarrow> jstr" where
  "delta_line P c = asc ''0:'' @ JSON_stringify P c @ [0x0A]"

text \<open>
  The body of \<open>for (const line of lines)\<close>: from \<open>fullContent\<close> and one line, the new
  \<open>fullContent\<close> and what is enqueued. The \<open>[DONE]\<close> branch ends with \<open>continue\<close>; the \<open>try\<close>
  block catches the SyntaxError of \<open>JSON.parse\<close> and the TypeErrors of the property read and of
  \<open>fullContent += content\<close>.
\<close>

definition transform_line :: "platform \<Rightarrow> jstr \<Rightarrow> jstr \<Rightarrow> jstr \<times> jstr list" where
  "transform_line P full line =
     (if starts_with line (asc ''data: '') then
        (let data = drop 6 line in
         if data = asc ''[DONE]'' then (full, [finish_line])
         else
           (case JSON_parse data of
              None \<Rightarrow> (full, [])
            | Some parsed \<Rightarrow>
                (case delta_content parsed of
                   Inl e \<Rightarrow> (full, [])
                 | Inr content \<Rightarrow>
                     if truthy P content then
                       (case content of
                          None \<Rightarrow> (full, [])
                        | Some c \<Rightarrow>
                            (case to_string P c of
                               None \<Rightarrow> (full, [])
                             | Some t \<Rightarrow> (full @ t, [delta_line P c])))
                     else (full, []))))
      else (full, []))"

fun transform_lines :: "platform \<Rightarrow> jstr \<Rightarrow> jstr list \<Rightarrow> jstr \<times> jstr list" where
  "transform_lines P full [] = (full, [])"
| "transform_lines P full (line # ls) =
     (let (full1, out1) = transform_line P full line;
          (full2, out2) = transform_lines P full1 ls
      in (full2, out1 @ out2))"

text \<open>\<open>text.split("\n").filter((line) => line.trim() !== "")\<close>, which both loops apply to the
  text of one chunk.\<close>

definition chunk_lines :: "jstr \<Rightarrow> jstr list" where
  "chunk_lines text = filter (\<lambda>line. trim line \<noteq> []) (split_nl text)"

text \<open>What lives across calls of \<open>transform\<close>: the \<open>TextDecoder\<close> and \<open>fullContent\<close>.\<close>

record transformer =
  t_decoder :: decoder
  t_fullContent :: jstr

definition new_transformer :: transformer where
  "new_transformer = \<lparr>t_decoder = new_decoder, t_fullContent = []\<rparr>"

definition transform :: "platform \<Rightarrow> transformer \<Rightarrow> byte list \<Rightarrow> byte list list \<times> transformer" where
  "transform P st chunk =
     (let (text, d) = decode_stream (t_decoder st) chunk;
          (full, out) = transform_lines P (t_fullContent st) (chunk_lines text)
      in (map encode out, \<lparr>t_decoder = d, t_fullContent = full\<rparr>))"

text \<open>\<open>response.body.pipeThrough(transformStream)\<close>: the chunks enqueued for the chunks read.\<close>

fun pipeThrough :: "platform \<Rightarrow> transformer \<Rightarrow> byte list list \<Rightarrow> byte list list" where
  "pipeThrough P st [] = []"
| "pipeThrough P st (chunk # cs) =
     (let (out, st1) = transform P st chunk in out @ pipeThrough P st1 cs)"

text \<open>The lines the loop of \<open>transform\<close> iterates over, for a whole stream of chunks.\<close>

fun stream_lines :: "decoder \<Rightarrow> byte list list \<Rightarrow> jstr list" where
  "stream_lines d [] = []"
| "stream_lines d (chunk # cs) =
     (let (text, d1) = decode_stream d chunk in chunk_lines text @ stream_lines d1 cs)"

text \<open>What one line enqueues (the transformer's \<open>fullContent\<close> has no part in it).\<close>

definition emitted :: "platform \<Rightarrow> jstr \<Rightarrow> jstr list" where
  "emitted P line = snd (transform_line P [] line)"

text \<open>A provider event whose first choice carries the delta content \<open>s\<close>: its JSON payload, and
  the line.\<close>

definition event_json :: "jstr \<Rightarrow> jstr" where
  "event_json s =
     asc ''{'' @ QuoteJSONString (asc ''choices'') @ asc '':[{''
     @ QuoteJSONString (asc ''delta'') @ asc '':{'' @ QuoteJSONString (asc ''content'')
     @ asc '':'' @ QuoteJSONString s @ asc ''}}]}''"

definition event :: "jstr \<Rightarrow> jstr" where
  "event s =
     asc ''data: {'' @ QuoteJSONString (asc ''choices'') @ asc '':[{''
     @ QuoteJSONString (asc ''delta'') @ asc '':{'' @ QuoteJSONString (asc ''content'')
     @ asc '':'' @ QuoteJSONString s @ asc ''}}]}''"

text \<open>An event whose payload is not the sentinel and does not parse, or parses to a value
  without a first-choice delta content; and a line that is an event with content \<open>c\<close> which the
  transformer's \<open>if (content)\<close> accepts.\<close>

definition malformed :: "jstr \<Rightarrow> bool" where
  "malformed data =
     (data \<noteq> asc ''[DONE]''
      \<and> (case JSON_parse data of
            None \<Rightarrow> True
          | Some v \<Rightarrow> (case delta_content v of Inl e \<Rightarrow> True | Inr c \<Rightarrow> c = None)))"

definition carries_content :: "platform \<Rightarrow> jstr \<Rightarrow> json \<Rightarrow> bool" where
  "carries_content P line c =
     (starts_with line (asc ''data: '') \<and> drop 6 line \<noteq> asc ''[DONE]''
      \<and> (case JSON_parse (drop 6 line) of
            None \<Rightarrow> False
          | Some v \<Rightarrow> delta_content v = Inr (Some c))
      \<and> truthy P (Some c) \<and> to_string P c \<noteq> None)"

section \<open>The Stream Reformatter: \<open>POST\<close>\<close>

record role_content =
  role :: jstr
  content :: jstr

record part =
  part_type :: jstr
  part_text :: "jstr option"

text \<open>A received message, as the handler's parameter type has it: \<open>content\<close> and \<open>parts\<close> are
  optional, and so is the \<open>text\<close> of a part.\<close>

record api_message =
  api_role :: jstr
  api_content :: "jstr option"
  api_parts :: "part list option"

definition SYSTEM_PROMPT :: jstr where
  "SYSTEM_PROMPT =
     asc ''You are Sparkle Assistant, a friendly and professional customer servic''
     @ asc ''e representative for a residential and commercial cleaning business.\<newline>''
     @ asc ''\<newline>''
     @ asc ''Your responsibilities:\<newline>''
     @ asc ''- Answer questions about cleaning services (residential, commercial, d''
     @ asc ''eep cleaning, move-in/move-out, etc.)\<newline>''
     @ asc ''- Provide general pricing information and explain that exact quotes re''
     @ asc ''quire an assessment\<newline>''
     @ asc ''- Help customers understand what's included in different cleaning pack''
     @ asc ''ages\<newline>''
     @ asc ''- Assist with scheduling inquiries\<newline>''
     @ asc ''- Address common concerns about cleaning products, pet safety, and eco''
     @ asc ''-friendly options\<newline>''
     @ asc ''- Collect customer information for booking requests\<newline>''
     @ asc ''\<newline>''
     @ asc ''Service offerings:\<newline>''
     @ asc ''- Standard Cleaning: Regular maintenance cleaning for homes and office''
     @ asc ''s\<newline>''
     @ asc ''- Deep Cleaning: Thorough top-to-bottom cleaning including baseboards,''
     @ asc '' inside appliances, etc.\<newline>''
     @ asc ''- Move-In/Move-Out Cleaning: Comprehensive cleaning for property trans''
     @ asc ''itions\<newline>''
     @ asc ''- Commercial Cleaning: Office buildings, retail spaces, and commercial''
     @ asc '' properties\<newline>''
     @ asc ''- Specialty Services: Carpet cleaning, window washing, post-constructi''
     @ asc ''on cleanup\<newline>''
     @ asc ''\<newline>''
     @ asc ''Be helpful, warm, and professional. If you don't know specific pricing''
     @ asc '', explain that a representative will provide a custom quote. Always en''
     @ asc ''courage customers to book a free consultation.''"

text \<open>\<open>a || b\<close> on values that are a string or \<open>undefined\<close>: the empty string is falsy.\<close>

definition or_else :: "jstr option \<Rightarrow> jstr option \<Rightarrow> jstr option" where
  "or_else a b = (case a of None \<Rightarrow> b | Some s \<Rightarrow> if s \<noteq> [] then Some s else b)"

definition or_default :: "jstr option \<Rightarrow> jstr \<Rightarrow> jstr" where
  "or_default a d = (case a of None \<Rightarrow> d | Some s \<Rightarrow> if s \<noteq> [] then s else d)"

text \<open>\<open>parts.filter((p) => p.type === "text").map((p) => p.text).join("")\<close>; \<open>join\<close> writes
  nothing for an \<open>undefined\<close> element.\<close>

definition parts_text :: "part list \<Rightarrow> jstr" where
  "parts_text ps =
     concat (map (\<lambda>p. case part_text p of None \<Rightarrow> [] | Some t \<Rightarrow> t)
               (filter (\<lambda>p. part_type p = asc ''text'') ps))"

definition coreMessage :: "api_message \<Rightarrow> role_content" where
  "coreMessage msg =
     \<lparr>role = api_role msg,
      content = or_default (or_else (api_content msg) (map_option parts_text (api_parts msg))) []\<rparr>"

definition messagesWithSystem :: "api_message list \<Rightarrow> role_content list" where
  "messagesWithSystem messages =
     \<lparr>role = asc ''system'', content = SYSTEM_PROMPT\<rparr> # map coreMessage messages"

record upstream_request =
  url :: string
  authorization :: jstr
  model :: jstr
  req_messages :: "role_content list"
  stream :: bool

text \<open>What \<open>fetch\<close> gives: a rejection, or a response with its status and its body (\<open>null\<close> or
  the chunks of the stream).\<close>

datatype upstream_result = UpstreamRejected | UpstreamResponse nat "byte list list option"

datatype response_body = JsonBody jstr | StreamBody "byte list list option"

record http_response =
  status :: nat
  headers :: "(string \<times> string) list"
  body :: response_body

definition response_ok :: "nat \<Rightarrow> bool" where
  "response_ok st = (200 \<le> st \<and> st \<le> 299)"

text \<open>The response of the \<open>catch\<close> block.\<close>

definition failure_response :: http_response where
  "failure_response =
     \<lparr>status = 500,
      headers = [(''Content-Type'', ''application/json'')],
      body = JsonBody (asc ''{'' @ QuoteJSONString (asc ''error'') @ asc '':''
                       @ QuoteJSONString (asc ''Failed to process chat request'') @ asc ''}'')\<rparr>"

definition chat_request :: "jstr option \<Rightarrow> api_message list \<Rightarrow> upstream_request" where
  "chat_request key messages =
     \<lparr>url = ''https://api.openai.com/v1/chat/completions'',
      authorization = asc ''Bearer '' @ (case key of None \<Rightarrow> asc ''undefined'' | Some k \<Rightarrow> k),
      model = asc ''gpt-4o-mini'',
      req_messages = messagesWithSystem messages,
      stream = True\<rparr>"

text \<open>
  The handler: from the environment variable, the upstream's answer to a request and the parsed
  request body (\<open>None\<close> where \<open>req.json()\<close> rejects or \<open>messages.map\<close> throws), the response and
  the requests issued to the upstream, in order. Every \<open>throw\<close> inside \<open>try\<close> ends in the
  \<open>catch\<close> block.
\<close>

definition POST ::
  "platform \<Rightarrow> jstr option \<Rightarrow> (upstream_request \<Rightarrow> upstream_result) \<Rightarrow> api_message list option
   \<Rightarrow> http_response \<times> upstream_request list" where
  "POST P key fetch req_json =
     (case req_json of
        None \<Rightarrow> (failure_response, [])
      | Some messages \<Rightarrow>
          (let request = chat_request key messages in
           case fetch request of
             UpstreamRejected \<Rightarrow> (failure_response, [request])
           | UpstreamResponse st upstream_body \<Rightarrow>
               if \<not> response_ok st then (failure_response, [request])
               else
                 (\<lparr>status = 200,
                   headers = [(''Content-Type'', ''text/plain; charset=utf-8''),
                              (''X-Vercel-AI-Data-Stream'', ''v1'')],
                   body = StreamBody (map_option (pipeThrough P new_transformer) upstream_body)\<rparr>,
                  [request])))"

section \<open>The Incremental Reply Renderer\<close>

datatype chat_role = User | Assistant

record message =
  m_id :: jstr
  m_role :: chat_role
  m_content :: jstr

text \<open>The component's four state variables.\<close>

record chat_state =
  isOpen :: bool
  input :: jstr
  messages :: "message list"
  isLoading :: bool

text \<open>
  What a turn does, in program order: the calls of the state setters and the one call of
  \<open>fetch\<close>. \<open>AppendMessage m\<close> is \<open>setMessages((prev) => [...prev, m])\<close>, and \<open>SetContent i c\<close>
  is \<open>setMessages((prev) => prev.map((m) => (m.id === i ? { ...m, content: c } : m)))\<close>.
\<close>

datatype effect =
    AppendMessage message
  | SetIsLoading bool
  | SetInput jstr
  | Fetch "role_content list"
  | SetContent jstr jstr

fun apply_effect :: "chat_state \<Rightarrow> effect \<Rightarrow> chat_state" where
  "apply_effect st (AppendMessage m) = st\<lparr>messages := messages st @ [m]\<rparr>"
| "apply_effect st (SetIsLoading b) = st\<lparr>isLoading := b\<rparr>"
| "apply_effect st (SetInput s) = st\<lparr>input := s\<rparr>"
| "apply_effect st (Fetch r) = st"
| "apply_effect st (SetContent i c) =
     st\<lparr>messages := map (\<lambda>m. if m_id m = i then m\<lparr>m_content := c\<rparr> else m) (messages st)\<rparr>"

definition run_effects :: "chat_state \<Rightarrow> effect list \<Rightarrow> chat_state" where
  "run_effects st es = foldl apply_effect st es"

text \<open>What \<open>fetch("/api/chat")\<close> gives: a rejection, or a response with its status and its body
  (\<open>null\<close>, or the chunks \<open>reader.read()\<close> yields and whether the stream then closes or fails).\<close>

datatype stream_end = Closed | Errored

datatype chat_result = ChatRejected | ChatResponse nat "(byte list list \<times> stream_end) option"

definition apology :: jstr where
  "apology = asc ''Sorry, I encountered an error. Please try again.''"

definition role_name :: "chat_role \<Rightarrow> jstr" where
  "role_name r = (case r of User \<Rightarrow> asc ''user'' | Assistant \<Rightarrow> asc ''assistant'')"

text \<open>The body of \<open>for (const line of lines)\<close> in \<open>sendMessage\<close>: the inner \<open>try\<close> skips a line
  whose payload does not parse (or whose value cannot be appended to a string).\<close>

fun render_lines :: "platform \<Rightarrow> jstr \<Rightarrow> jstr \<Rightarrow> jstr list \<Rightarrow> jstr \<times> effect list" where
  "render_lines P assistantId full [] = (full, [])"
| "render_lines P assistantId full (line # ls) =
     (if starts_with line (asc ''0:'') then
        (case JSON_parse (drop 2 line) of
           None \<Rightarrow> render_lines P assistantId full ls
         | Some c \<Rightarrow>
             (case to_string P c of
                None \<Rightarrow> render_lines P assistantId full ls
              | Some t \<Rightarrow>
                  (let (full2, es) = render_lines P assistantId (full @ t) ls
                   in (full2, SetContent assistantId (full @ t) # es))))
      else render_lines P assistantId full ls)"

text \<open>The \<open>while (true)\<close> loop over the chunks read: the final \<open>fullContent\<close> and the updates
  published.\<close>

fun read_loop ::
  "platform \<Rightarrow> jstr \<Rightarrow> decoder \<Rightarrow> jstr \<Rightarrow> byte list list \<Rightarrow> jstr \<times> effect list" where
  "read_loop P assistantId d full [] = (full, [])"
| "read_loop P assistantId d full (chunk # cs) =
     (let (text, d1) = decode_stream d chunk;
          (full1, es1) = render_lines P assistantId full (chunk_lines text);
          (full2, es2) = read_loop P assistantId d1 full1 cs
      in (full2, es1 @ es2))"

text \<open>The decimal digits of \<open>Date.now()\<close> in a template literal.\<close>

function digits :: "nat \<Rightarrow> jstr" where
  "digits n = (if n < 10 then [of_nat (48 + n)] else digits (n div 10) @ [of_nat (48 + n mod 10)])"
  by pat_completeness auto
termination
  by (relation "measure id") auto

declare digits.simps [simp del]

text \<open>A message as the request body carries it: \<open>({ role: m.role, content: m.content })\<close>.\<close>

definition to_request :: "message \<Rightarrow> role_content" where
  "to_request m = \<lparr>role = role_name (m_role m), content = m_content m\<rparr>"

text \<open>
  \<open>sendMessage\<close>, from the \<open>messages\<close> its closure captured, the answer of \<open>fetch\<close> to a request
  body, the two readings of \<open>Date.now()\<close> and the user's text: the effects up to the first
  \<open>await\<close> (the call of \<open>fetch\<close>), and the effects after it. The \<open>catch\<close> block is \<open>failed\<close>, the
  \<open>finally\<close> block is the last effect.
\<close>

definition sendMessage ::
  "platform \<Rightarrow> message list \<Rightarrow> (role_content list \<Rightarrow> chat_result) \<Rightarrow> nat \<Rightarrow> nat \<Rightarrow> jstr
   \<Rightarrow> effect list \<times> effect list" where
  "sendMessage P captured fetch now1 now2 userMessage =
     (let userMsg = \<lparr>m_id = asc ''user-'' @ digits now1, m_role = User, m_content = userMessage\<rparr>;
          assistantId = asc ''assistant-'' @ digits now2;
          request = map to_request (captured @ [userMsg]);
          failed = [SetContent assistantId apology]
      in ([AppendMessage userMsg,
           SetIsLoading True,
           AppendMessage \<lparr>m_id = assistantId, m_role = Assistant, m_content = []\<rparr>,
           Fetch request],
          (case fetch request of
             ChatRejected \<Rightarrow> failed
           | ChatResponse st response_body \<Rightarrow>
               if \<not> response_ok st then failed
               else
                 (case response_body of
                    None \<Rightarrow> failed
                  | Some (chunks, ending) \<Rightarrow>
                      snd (read_loop P assistantId new_decoder [] chunks)
                      @ (if ending = Errored then failed else [])))
          @ [SetIsLoading False]))"

text \<open>\<open>handleSubmit\<close>: the gate, then \<open>sendMessage(input)\<close>, with \<open>setInput("")\<close> running when
  \<open>sendMessage\<close> has reached its first \<open>await\<close>.\<close>

definition handleSubmit ::
  "platform \<Rightarrow> (role_content list \<Rightarrow> chat_result) \<Rightarrow> nat \<Rightarrow> nat \<Rightarrow> chat_state \<Rightarrow> effect list" where
  "handleSubmit P fetch now1 now2 st =
     (if trim (input st) = [] \<or> isLoading st then []
      else
        (let (started, finished) = sendMessage P (messages st) fetch now1 now2 (input st)
         in started @ [SetInput []] @ finished))"

section \<open>Auxiliary notions for the proofs\<close>

text \<open>A decoder state written out, a Unicode scalar value, and a string without lone
  surrogates.\<close>

definition dstate :: "nat \<Rightarrow> nat \<Rightarrow> nat \<Rightarrow> nat \<Rightarrow> nat \<Rightarrow> bool \<Rightarrow> decoder" where
  "dstate cp seen need lo hi f =
     \<lparr>code_point = cp, bytes_seen = seen, bytes_needed = need,
      lower_boundary = lo, upper_boundary = hi, bom_seen = f\<rparr>"

definition is_scalar :: "nat \<Rightarrow> bool" where
  "is_scalar v = (v < 0x110000 \<and> \<not> (0xD800 \<le> v \<and> v \<le> 0xDFFF))"

fun well_formed :: "jstr \<Rightarrow> bool" where
  "well_formed [] = True"
| "well_formed [c] = (\<not> is_surrogate c)"
| "well_formed (c # d # cs) =
     (if is_high_surrogate c \<and> is_low_surrogate d then well_formed cs
      else \<not> is_surrogate c \<and> well_formed (d # cs))"

text \<open>Concrete inputs at which the theorems below are instantiated: a platform, and the state
  of the widget when the visitor has typed a first question.\<close>

definition sample_platform :: platform where
  "sample_platform =
     \<lparr>num_truthy = (\<lambda>n. True), stringify_other = (\<lambda>v. asc ''null''),
      to_string_other = (\<lambda>v. None)\<rparr>"

definition sample_state :: chat_state where
  "sample_state =
     \<lparr>isOpen = True, input = asc ''Do you offer carpet cleaning?'', messages = [],
      isLoading = False\<rparr>"

text \<open>Upstream texts: the sentinel followed by an event; the three tokens of the end-to-end
  scenario and the sentinel, as the provider frames them; an event that is not JSON between two
  events.\<close>

definition done_then_event :: jstr where
  "done_then_event = asc ''data: [DONE]'' @ [0x0A] @ event (asc ''x'') @ [0x0A]"

definition scenario_upstream :: jstr where
  "scenario_upstream =
     event (asc ''Yes'') @ [0x0A, 0x0A] @ event (asc '', we'') @ [0x0A, 0x0A]
     @ event (asc '' do.'') @ [0x0A, 0x0A] @ asc ''data: [DONE]'' @ [0x0A, 0x0A]"

definition malformed_between :: jstr where
  "malformed_between =
     event (asc ''a'') @ [0x0A] @ asc ''data: {not json'' @ [0x0A] @ event (asc ''b'') @ [0x0A]"

text \<open>The lines of a reformatted stream: a delta line for a content string, or the terminal
  line; the line as it is written, the text it contributes to the reply, and the updates the
  renderer publishes for a sequence of lines, from the content accumulated so far.\<close>

datatype wire_item = Delta jstr | Finish

fun wire_line :: "wire_item \<Rightarrow> jstr" where
  "wire_line (Delta s) = asc ''0:'' @ QuoteJSONString s @ [0x0A]"
| "wire_line Finish = finish_line"

fun item_text :: "wire_item \<Rightarrow> jstr" where
  "item_text (Delta s) = s"
| "item_text Finish = []"

fun updates :: "jstr \<Rightarrow> jstr \<Rightarrow> wire_item list \<Rightarrow> effect list" where
  "updates aid full [] = []"
| "updates aid full (Delta s # items) = SetContent aid (full @ s) # updates aid (full @ s) items"
| "updates aid full (Finish # items) = updates aid full items"

text \<open>A content string with a quote, a backslash, a newline, a non-ASCII character, a surrogate
  pair and a lone surrogate; the stream \<open>0:"hello"\<close>, terminal line, cut inside its first line;
  and an upstream event cut inside its line.\<close>

definition escapes_sample :: jstr where
  "escapes_sample = [0x22, 0x5C, 0x0A, 0xE9, 0xD83D, 0xDE00, 0xDC00]"

definition hello_cut_head :: jstr where
  "hello_cut_head = asc ''0:'' @ [0x22] @ asc ''he''"

definition hello_cut_tail :: jstr where
  "hello_cut_tail = asc ''llo'' @ [0x22, 0x0A] @ finish_line"

definition event_cut_head :: jstr where
  "event_cut_head = take 20 (event (asc ''x'') @ [0x0A])"

definition event_cut_tail :: jstr where
  "event_cut_tail = drop 20 (event (asc ''x'') @ [0x0A])"

section \<open>\<open>JSON.parse\<close> inverts \<open>JSON.stringify\<close> on strings\<close>

lemma hex_value_hex_digit:
  assumes "n < 16"
  shows "hex_value (hex_digit n) = Some n"
proof (cases "n < 10")
  case True
  have u: "unat (of_nat (48 + n) :: cu) = 48 + n"
    using assms by (simp add: unat_of_nat del: of_nat_add)
  show ?thesis
    using True by (simp add: hex_value_def hex_digit_def word_le_nat_alt u del: of_nat_add)
next
  case False
  have u: "unat (of_nat (87 + n) :: cu) = 87 + n"
    using assms by (simp add: unat_of_nat del: of_nat_add)
  show ?thesis
    using False assms by (simp add: hex_value_def hex_digit_def word_le_nat_alt u del: of_nat_add)
qed

lemma hex_recompose:
  fixes n :: nat
  shows "((n div 4096 * 16 + n div 256 mod 16) * 16 + n div 16 mod 16) * 16 + n mod 16 = n"
proof -
  have a: "n div 256 = n div 16 div 16" by (simp add: div_mult2_eq)
  have b: "n div 4096 = n div 16 div 16 div 16" by (simp add: div_mult2_eq)
  show ?thesis
    unfolding a b by (simp only: div_mult_mod_eq)
qed

lemma hex4_unicode_escape:
  "hex4 (hex_digit (unat c div 4096)) (hex_digit (unat c div 256 mod 16))
        (hex_digit (unat c div 16 mod 16)) (hex_digit (unat c mod 16)) = Some (c :: cu)"
proof -
  have b: "unat c < 65536" using unsigned_less [of c] by simp
  then have a: "unat c div 4096 < 16" by simp
  have "hex4 (hex_digit (unat c div 4096)) (hex_digit (unat c div 256 mod 16))
        (hex_digit (unat c div 16 mod 16)) (hex_digit (unat c mod 16))
      = Some (of_nat (((unat c div 4096 * 16 + unat c div 256 mod 16) * 16
            + unat c div 16 mod 16) * 16 + unat c mod 16))"
    by (simp add: hex4_def hex_value_hex_digit a del: of_nat_add of_nat_mult)
  then show ?thesis
    by (simp only: hex_recompose) simp
qed

lemma lex_string_quote_unit: "lex_string (quote_unit c @ t) = cons_fst c (lex_string t)"
  by (simp add: quote_unit_def unicode_escape_def unescape_def hex4_unicode_escape
      is_high_surrogate_def is_low_surrogate_def)

lemma lex_string_pair:
  assumes "is_high_surrogate c" and "is_low_surrogate d"
  shows "lex_string (c # d # t) = cons_fst c (cons_fst d (lex_string t))"
proof -
  have c: "c \<noteq> 0x22" "c \<noteq> 0x5C" "\<not> c < 0x20"
    using assms(1) by (auto simp: is_high_surrogate_def word_le_nat_alt word_less_nat_alt)
  have d: "d \<noteq> 0x22" "d \<noteq> 0x5C" "\<not> d < 0x20"
    using assms(2) by (auto simp: is_low_surrogate_def word_le_nat_alt word_less_nat_alt)
  show ?thesis using c d by simp
qed

lemma lex_string_quote_units:
  "lex_string (quote_units s @ 0x22 # rest) = Some (s, rest)"
proof (induction s rule: quote_units.induct)
  case 1
  then show ?case by simp
next
  case (2 c)
  then show ?case by (simp add: lex_string_quote_unit cons_fst_def)
next
  case (3 c d cs)
  show ?case
  proof (cases "is_high_surrogate c \<and> is_low_surrogate d")
    case True
    then have "quote_units (c # d # cs) @ 0x22 # rest = c # d # (quote_units cs @ 0x22 # rest)"
      by simp
    then show ?thesis
      using True 3(1) by (simp only: lex_string_pair) (simp add: cons_fst_def)
  next
    case False
    then have "quote_units (c # d # cs) @ 0x22 # rest
        = quote_unit c @ (quote_units (d # cs) @ 0x22 # rest)"
      by auto
    then show ?thesis
      using False 3(2) by (simp only: lex_string_quote_unit) (simp add: cons_fst_def)
  qed
qed

lemma JSON_parse_QuoteJSONString: "JSON_parse (QuoteJSONString s) = Some (JStr s)"
  using lex_string_quote_units [of s "[]"]
  by (simp add: JSON_parse_def QuoteJSONString_def is_json_space_def)

section \<open>Decoding inverts encoding on well-formed strings\<close>

lemma unat_byte: "n < 256 \<Longrightarrow> unat (of_nat n :: byte) = n"
  by (simp add: unat_of_nat)

lemma mod_shift: "(k * m + x) mod m = x mod (m::nat)"
  by simp

lemma join12: "(v div 4096) * 64 + v div 64 mod 64 = (v::nat) div 64"
proof -
  have "v div 4096 = v div 64 div 64" by (simp add: div_mult2_eq)
  then show ?thesis by simp
qed

lemma join18: "(v div 262144) * 64 + v div 4096 mod 64 = (v::nat) div 4096"
proof -
  have "v div 262144 = v div 4096 div 64" by (simp add: div_mult2_eq)
  then show ?thesis by simp
qed

lemma handler_ascii:
  assumes "n \<le> 0x7F"
  shows "utf8_handler (dstate 0 0 0 0x80 0xBF f) (of_nat n) = ([n], dstate 0 0 0 0x80 0xBF f)"
proof -
  have u: "unat (of_nat n :: byte) = n" using assms by (simp add: unat_byte)
  show ?thesis using assms by (simp add: utf8_handler_def utf8_lead_def dstate_def u)
qed

lemma handler_lead2:
  assumes "0xC2 \<le> n" "n \<le> 0xDF"
  shows "utf8_handler (dstate 0 0 0 0x80 0xBF f) (of_nat n)
         = ([], dstate (n mod 32) 0 1 0x80 0xBF f)"
proof -
  have u: "unat (of_nat n :: byte) = n" using assms by (simp add: unat_byte)
  show ?thesis using assms by (simp add: utf8_handler_def utf8_lead_def dstate_def u)
qed

lemma handler_lead3:
  assumes "0xE0 \<le> n" "n \<le> 0xEF"
  shows "utf8_handler (dstate 0 0 0 0x80 0xBF f) (of_nat n)
         = ([], dstate (n mod 16) 0 2 (if n = 0xE0 then 0xA0 else 0x80)
                  (if n = 0xED then 0x9F else 0xBF) f)"
proof -
  have u: "unat (of_nat n :: byte) = n" using assms by (simp add: unat_byte)
  show ?thesis using assms by (simp add: utf8_handler_def utf8_lead_def dstate_def u)
qed

lemma handler_lead4:
  assumes "0xF0 \<le> n" "n \<le> 0xF4"
  shows "utf8_handler (dstate 0 0 0 0x80 0xBF f) (of_nat n)
         = ([], dstate (n mod 8) 0 3 (if n = 0xF0 then 0x90 else 0x80)
                  (if n = 0xF4 then 0x8F else 0xBF) f)"
proof -
  have u: "unat (of_nat n :: byte) = n" using assms by (simp add: unat_byte)
  show ?thesis using assms by (simp add: utf8_handler_def utf8_lead_def dstate_def u)
qed

lemma handler_cont:
  assumes "need \<noteq> 0" "lo \<le> n" "n \<le> hi" "n < 256"
  shows "utf8_handler (dstate cp seen need lo hi f) (of_nat n)
         = (if Suc seen \<noteq> need then ([], dstate (cp * 64 + n mod 64) (Suc seen) need 0x80 0xBF f)
            else ([cp * 64 + n mod 64], dstate 0 0 0 0x80 0xBF f))"
proof -
  have u: "unat (of_nat n :: byte) = n" using assms by (simp add: unat_byte)
  show ?thesis using assms
    by (simp add: utf8_handler_def utf8_reset_def dstate_def u Let_def)
qed

lemma lin_ub3: "832 + x = y \<Longrightarrow> y < 864 \<Longrightarrow> x \<le> (31::nat)"
  by simp

lemma lin_ub4: "256 + x = y \<Longrightarrow> y < 272 \<Longrightarrow> x \<le> (15::nat)"
  by simp

lemma lb3:
  fixes v :: nat
  assumes "2048 \<le> v" "v div 4096 = 0"
  shows "32 \<le> v div 64 mod 64"
proof -
  have "v < 4096" using assms(2) by simp
  then have "v div 64 < 64" by simp
  then have "v div 64 mod 64 = v div 64" by simp
  moreover have "32 \<le> v div 64" using assms(1) by simp
  ultimately show ?thesis by simp
qed

lemma ub3:
  fixes v :: nat
  assumes "v div 4096 = 13" "\<not> 55296 \<le> v"
  shows "v div 64 mod 64 \<le> 31"
proof -
  have a: "v div 64 < 864" using assms(2) by simp
  have b: "832 + v div 64 mod 64 = v div 64" using join12 [of v] assms(1) by simp
  show ?thesis by (rule lin_ub3 [OF b a])
qed

lemma lb4:
  fixes v :: nat
  assumes "65536 \<le> v" "v div 262144 = 0"
  shows "16 \<le> v div 4096 mod 64"
proof -
  have "v < 262144" using assms(2) by simp
  then have "v div 4096 < 64" by simp
  then have "v div 4096 mod 64 = v div 4096" by simp
  moreover have "16 \<le> v div 4096" using assms(1) by simp
  ultimately show ?thesis by simp
qed

lemma ub4:
  fixes v :: nat
  assumes "v div 262144 = 4" "v < 1114112"
  shows "v div 4096 mod 64 \<le> 15"
proof -
  have a: "v div 4096 < 272" using assms(2) by simp
  have b: "256 + v div 4096 mod 64 = v div 4096" using join18 [of v] assms(1) by simp
  show ?thesis by (rule lin_ub4 [OF b a])
qed

lemma run_bytes1:
  assumes "v \<le> 0x7F"
  shows "utf8_run (dstate 0 0 0 0x80 0xBF f) (utf8_bytes v @ rest)
         = (v # fst (utf8_run (dstate 0 0 0 0x80 0xBF f) rest),
            snd (utf8_run (dstate 0 0 0 0x80 0xBF f) rest))"
  using assms by (simp add: utf8_bytes_def handler_ascii split: prod.splits)

lemma run_bytes2:
  assumes "0x80 \<le> v" "v \<le> 0x7FF"
  shows "utf8_run (dstate 0 0 0 0x80 0xBF f) (utf8_bytes v @ rest)
         = (v # fst (utf8_run (dstate 0 0 0 0x80 0xBF f) rest),
            snd (utf8_run (dstate 0 0 0 0x80 0xBF f) rest))"
proof -
  define b1 :: byte where "b1 = of_nat (0xC0 + v div 64)"
  define b2 :: byte where "b2 = of_nat (0x80 + v mod 64)"
  have d: "2 \<le> v div 64" "v div 64 \<le> 31" using assms by simp_all
  have m: "(192 + v div 64) mod 32 = v div 64"
    using mod_shift [of 6 32 "v div 64"] d by simp
  have s1: "utf8_handler (dstate 0 0 0 0x80 0xBF f) b1
            = ([], dstate (v div 64) 0 (Suc 0) 0x80 0xBF f)"
    unfolding b1_def using handler_lead2 [of "0xC0 + v div 64" f] d m by simp
  have m2: "(128 + v mod 64) mod 64 = v mod 64"
    using mod_shift [of 2 64 "v mod 64"] by simp
  have s2: "utf8_handler (dstate (v div 64) 0 (Suc 0) 0x80 0xBF f) b2
            = ([v], dstate 0 0 0 0x80 0xBF f)"
    unfolding b2_def
    using handler_cont [of "Suc 0" "0x80" "0x80 + v mod 64" "0xBF" "v div 64" 0 f] m2 by simp
  have "utf8_bytes v = [b1, b2]"
    using assms by (simp add: utf8_bytes_def b1_def b2_def)
  then show ?thesis by (simp add: s1 s2 split: prod.splits)
qed

lemma run_bytes3:
  assumes "0x800 \<le> v" "v \<le> 0xFFFF" "\<not> (0xD800 \<le> v \<and> v \<le> 0xDFFF)"
  shows "utf8_run (dstate 0 0 0 0x80 0xBF f) (utf8_bytes v @ rest)
         = (v # fst (utf8_run (dstate 0 0 0 0x80 0xBF f) rest),
            snd (utf8_run (dstate 0 0 0 0x80 0xBF f) rest))"
proof -
  define b1 :: byte where "b1 = of_nat (0xE0 + v div 4096)"
  define b2 :: byte where "b2 = of_nat (0x80 + v div 64 mod 64)"
  define b3 :: byte where "b3 = of_nat (0x80 + v mod 64)"
  define lo :: nat where "lo = (if v div 4096 = 0 then 0xA0 else 0x80)"
  define hi :: nat where "hi = (if v div 4096 = 13 then 0x9F else 0xBF)"
  have d: "v div 4096 \<le> 15" using assms by simp
  have m: "(224 + v div 4096) mod 16 = v div 4096"
    using mod_shift [of 14 16 "v div 4096"] d by simp
  have s1: "utf8_handler (dstate 0 0 0 0x80 0xBF f) b1 = ([], dstate (v div 4096) 0 2 lo hi f)"
    unfolding b1_def lo_def hi_def using handler_lead3 [of "0xE0 + v div 4096" f] d m by simp
  have lb: "v div 4096 = 0 \<Longrightarrow> 32 \<le> v div 64 mod 64" using assms(1) by (simp add: lb3)
  have "v div 4096 = 13 \<Longrightarrow> \<not> 55296 \<le> v"
  proof
    assume h: "v div 4096 = 13" "55296 \<le> v"
    have "v div 4096 < 14" using h(1) by simp
    then have "v < 57344" by simp
    then show False using assms(3) h(2) by simp
  qed
  then have ub: "v div 4096 = 13 \<Longrightarrow> v div 64 mod 64 \<le> 31" by (simp add: ub3)
  have lt: "v div 64 mod 64 < 64" by simp
  have r: "lo \<le> 0x80 + v div 64 mod 64" "0x80 + v div 64 mod 64 \<le> hi"
    using lb ub lt by (auto simp: lo_def hi_def)
  have m2: "(128 + v div 64 mod 64) mod 64 = v div 64 mod 64"
    using mod_shift [of 2 64 "v div 64 mod 64"] by simp
  have s2: "utf8_handler (dstate (v div 4096) 0 2 lo hi f) b2
            = ([], dstate (v div 64) (Suc 0) 2 0x80 0xBF f)"
    unfolding b2_def
    using handler_cont [of 2 lo "0x80 + v div 64 mod 64" hi "v div 4096" 0 f] r m2 lt
    by (simp add: join12)
  have m3: "(128 + v mod 64) mod 64 = v mod 64"
    using mod_shift [of 2 64 "v mod 64"] by simp
  have s3: "utf8_handler (dstate (v div 64) (Suc 0) 2 0x80 0xBF f) b3
            = ([v], dstate 0 0 0 0x80 0xBF f)"
    unfolding b3_def
    using handler_cont [of 2 "0x80" "0x80 + v mod 64" "0xBF" "v div 64" "Suc 0" f] m3 by simp
  have "utf8_bytes v = [b1, b2, b3]"
    using assms by (simp add: utf8_bytes_def b1_def b2_def b3_def)
  then show ?thesis by (simp add: s1 s2 s3 split: prod.splits)
qed

lemma run_bytes4:
  assumes "0x10000 \<le> v" "v < 0x110000"
  shows "utf8_run (dstate 0 0 0 0x80 0xBF f) (utf8_bytes v @ rest)
         = (v # fst (utf8_run (dstate 0 0 0 0x80 0xBF f) rest),
            snd (utf8_run (dstate 0 0 0 0x80 0xBF f) rest))"
proof -
  define b1 :: byte where "b1 = of_nat (0xF0 + v div 262144)"
  define b2 :: byte where "b2 = of_nat (0x80 + v div 4096 mod 64)"
  define b3 :: byte where "b3 = of_nat (0x80 + v div 64 mod 64)"
  define b4 :: byte where "b4 = of_nat (0x80 + v mod 64)"
  define lo :: nat where "lo = (if v div 262144 = 0 then 0x90 else 0x80)"
  define hi :: nat where "hi = (if v div 262144 = 4 then 0x8F else 0xBF)"
  have d: "v div 262144 \<le> 4" using assms by simp
  have m: "(240 + v div 262144) mod 8 = v div 262144"
    using mod_shift [of 30 8 "v div 262144"] d by simp
  have s1: "utf8_handler (dstate 0 0 0 0x80 0xBF f) b1 = ([], dstate (v div 262144) 0 3 lo hi f)"
    unfolding b1_def lo_def hi_def using handler_lead4 [of "0xF0 + v div 262144" f] d m by simp
  have lb: "v div 262144 = 0 \<Longrightarrow> 16 \<le> v div 4096 mod 64" using assms(1) by (simp add: lb4)
  have ub: "v div 262144 = 4 \<Longrightarrow> v div 4096 mod 64 \<le> 15" using assms(2) by (simp add: ub4)
  have lt: "v div 4096 mod 64 < 64" by simp
  have r: "lo \<le> 0x80 + v div 4096 mod 64" "0x80 + v div 4096 mod 64 \<le> hi"
    using lb ub lt by (auto simp: lo_def hi_def)
  have m2: "(128 + v div 4096 mod 64) mod 64 = v div 4096 mod 64"
    using mod_shift [of 2 64 "v div 4096 mod 64"] by simp
  have s2: "utf8_handler (dstate (v div 262144) 0 3 lo hi f) b2
            = ([], dstate (v div 4096) (Suc 0) 3 0x80 0xBF f)"
    unfolding b2_def
    using handler_cont [of 3 lo "0x80 + v div 4096 mod 64" hi "v div 262144" 0 f] r m2 lt
    by (simp add: join18)
  have m3: "(128 + v div 64 mod 64) mod 64 = v div 64 mod 64"
    using mod_shift [of 2 64 "v div 64 mod 64"] by simp
  have s3: "utf8_handler (dstate (v div 4096) (Suc 0) 3 0x80 0xBF f) b3
            = ([], dstate (v div 64) (Suc (Suc 0)) 3 0x80 0xBF f)"
    unfolding b3_def
    using handler_cont [of 3 "0x80" "0x80 + v div 64 mod 64" "0xBF" "v div 4096" "Suc 0" f] m3
    by (simp add: join12)
  have m4: "(128 + v mod 64) mod 64 = v mod 64"
    using mod_shift [of 2 64 "v mod 64"] by simp
  have s4: "utf8_handler (dstate (v div 64) (Suc (Suc 0)) 3 0x80 0xBF f) b4
            = ([v], dstate 0 0 0 0x80 0xBF f)"
    unfolding b4_def
    using handler_cont [of 3 "0x80" "0x80 + v mod 64" "0xBF" "v div 64" "Suc (Suc 0)" f] m4 by simp
  have "utf8_bytes v = [b1, b2, b3, b4]"
    using assms by (simp add: utf8_bytes_def b1_def b2_def b3_def b4_def)
  then show ?thesis by (simp add: s1 s2 s3 s4 split: prod.splits)
qed

lemma run_scalar:
  assumes "is_scalar v"
  shows "utf8_run (dstate 0 0 0 0x80 0xBF f) (utf8_bytes v @ rest)
         = (v # fst (utf8_run (dstate 0 0 0 0x80 0xBF f) rest),
            snd (utf8_run (dstate 0 0 0 0x80 0xBF f) rest))"
proof -
  consider "v \<le> 0x7F" | "0x80 \<le> v \<and> v \<le> 0x7FF"
    | "0x800 \<le> v \<and> v \<le> 0xFFFF" | "0x10000 \<le> v"
    by linarith
  then show ?thesis
  proof cases
    case 1
    then show ?thesis by (rule run_bytes1)
  next
    case 2
    then show ?thesis by (simp add: run_bytes2)
  next
    case 3
    then show ?thesis using assms by (intro run_bytes3) (simp_all add: is_scalar_def)
  next
    case 4
    then show ?thesis using assms by (intro run_bytes4) (simp_all add: is_scalar_def)
  qed
qed

lemma run_scalars:
  assumes "\<forall>v \<in> set vs. is_scalar v"
  shows "utf8_run (dstate 0 0 0 0x80 0xBF f) (concat (map utf8_bytes vs))
         = (vs, dstate 0 0 0 0x80 0xBF f)"
  using assms by (induction vs) (simp_all add: run_scalar)

lemma high_is_surrogate: "is_high_surrogate c \<Longrightarrow> is_surrogate c"
  by (simp add: is_high_surrogate_def is_surrogate_def word_le_nat_alt)

lemma low_is_surrogate: "is_low_surrogate c \<Longrightarrow> is_surrogate c"
  by (simp add: is_low_surrogate_def is_surrogate_def word_le_nat_alt)

lemma well_formed_Cons: "\<not> is_surrogate c \<Longrightarrow> well_formed (c # s) = well_formed s"
  by (cases s) (auto dest: high_is_surrogate)

lemma well_formed_pair:
  "is_high_surrogate c \<Longrightarrow> is_low_surrogate d \<Longrightarrow> well_formed (c # d # s) = well_formed s"
  by simp

lemma well_formed_append: "well_formed a \<Longrightarrow> well_formed b \<Longrightarrow> well_formed (a @ b)"
proof (induction a rule: well_formed.induct)
  case 1
  then show ?case by simp
next
  case (2 c)
  then show ?case by (simp add: well_formed_Cons)
next
  case (3 c d cs)
  then show ?case by (auto split: if_splits)
qed

lemma well_formed_concat: "(\<forall>l \<in> set ls. well_formed l) \<Longrightarrow> well_formed (concat ls)"
  by (induction ls) (simp_all add: well_formed_append)

lemma lone_scalar:
  assumes "\<not> is_surrogate c"
  shows "is_scalar (lone_unit c)" and "utf16_units (lone_unit c) = [c]"
proof -
  have b: "unat c < 65536" using unsigned_less [of c] by simp
  have n: "\<not> (55296 \<le> unat c \<and> unat c \<le> 57343)"
    using assms by (simp add: is_surrogate_def word_le_nat_alt)
  show "is_scalar (lone_unit c)"
    using assms b n by (simp add: lone_unit_def is_scalar_def)
  show "utf16_units (lone_unit c) = [c]"
    using assms b by (simp add: lone_unit_def utf16_units_def)
qed

lemma pair_scalar:
  assumes "is_high_surrogate c" "is_low_surrogate d"
  defines "v \<equiv> 0x10000 + (unat c - 0xD800) * 1024 + (unat d - 0xDC00)"
  shows "is_scalar v" and "utf16_units v = [c, d]"
proof -
  define x where "x = unat c - 0xD800"
  define y where "y = unat d - 0xDC00"
  have c: "55296 \<le> unat c" "unat c \<le> 56319"
    using assms(1) by (simp_all add: is_high_surrogate_def word_le_nat_alt)
  have d: "56320 \<le> unat d" "unat d \<le> 57343"
    using assms(2) by (simp_all add: is_low_surrogate_def word_le_nat_alt)
  have x: "x < 1024" "55296 + x = unat c" using c by (simp_all add: x_def)
  have y: "y < 1024" "56320 + y = unat d" using d by (simp_all add: y_def)
  have v: "v = 65536 + (x * 1024 + y)" by (simp add: v_def x_def y_def)
  have xy: "x * 1024 + y < 1048576" using x(1) y(1) by simp
  have dv: "y div 1024 = 0" using y(1) by simp
  have md: "y mod 1024 = y" using y(1) by simp
  show "is_scalar v" using xy by (simp add: v is_scalar_def)
  have "utf16_units v = [of_nat (55296 + x), of_nat (56320 + y)]"
    by (simp add: v utf16_units_def dv md del: of_nat_add)
  then show "utf16_units v = [c, d]" by (simp only: x(2) y(2)) simp
qed

lemma scalar_values_well_formed:
  "well_formed s \<Longrightarrow>
   (\<forall>v \<in> set (scalar_values s). is_scalar v) \<and> concat (map utf16_units (scalar_values s)) = s"
proof (induction s rule: scalar_values.induct)
  case 1
  then show ?case by simp
next
  case (2 c)
  then show ?case by (simp add: lone_scalar)
next
  case (3 c d cs)
  show ?case
  proof (cases "is_high_surrogate c \<and> is_low_surrogate d")
    case True
    then show ?thesis using 3 by (simp add: pair_scalar)
  next
    case False
    then show ?thesis using 3 by (auto simp add: lone_scalar)
  qed
qed

lemma hd_scalar_values:
  assumes "c \<noteq> 0xFEFF"
  shows "hd (scalar_values (c # cs)) \<noteq> 0xFEFF"
proof -
  have "unat c \<noteq> unat (0xFEFF :: cu)"
    using assms by (simp only: word_unat_eq_iff) simp
  then have u: "unat c \<noteq> 65279" by simp
  show ?thesis using u by (cases cs) (simp_all add: lone_unit_def)
qed

lemma scalar_values_Nil: "scalar_values s = [] \<longleftrightarrow> s = []"
  by (induction s rule: scalar_values.induct) auto

lemma decode_encode:
  assumes "well_formed s" and "f \<or> s = [] \<or> hd s \<noteq> 0xFEFF"
  shows "decode_stream (dstate 0 0 0 0x80 0xBF f) (encode s)
         = (s, dstate 0 0 0 0x80 0xBF (f \<or> s \<noteq> []))"
proof -
  have sv: "\<forall>v \<in> set (scalar_values s). is_scalar v"
    and rt: "concat (map utf16_units (scalar_values s)) = s"
    using scalar_values_well_formed [OF assms(1)] by simp_all
  have run: "utf8_run (dstate 0 0 0 0x80 0xBF f) (encode s)
             = (scalar_values s, dstate 0 0 0 0x80 0xBF f)"
    unfolding encode_def by (rule run_scalars [OF sv])
  show ?thesis
  proof (cases "scalar_values s")
    case Nil
    then have "s = []" by (simp add: scalar_values_Nil)
    then show ?thesis using run by (simp add: decode_stream_def serialize_def)
  next
    case (Cons v vs)
    then obtain c cs where s: "s = c # cs" by (cases s) auto
    have h: "f \<or> v \<noteq> 0xFEFF"
      using assms(2) hd_scalar_values [of c cs] Cons s by auto
    have c: "utf16_units v @ concat (map utf16_units vs) = s" using rt Cons by simp
    have d: "decode_stream (dstate 0 0 0 0x80 0xBF f) (encode s)
             = serialize (dstate 0 0 0 0x80 0xBF f) (v # vs)"
      using run Cons by (simp add: decode_stream_def)
    show ?thesis
    proof (cases f)
      case True
      show ?thesis unfolding d using True c s by (simp add: serialize_def dstate_def)
    next
      case False
      then have "v \<noteq> 0xFEFF" using h by simp
      then show ?thesis unfolding d using False c s by (simp add: serialize_def dstate_def)
    qed
  qed
qed

section \<open>The renderer's turn\<close>

lemma render_lines_effects:
  "e \<in> set (snd (render_lines P aid full ls)) \<Longrightarrow> \<exists>c. e = SetContent aid c"
proof (induction ls arbitrary: full)
  case Nil
  then show ?case by simp
next
  case (Cons line ls)
  have ih: "\<And>f x es. render_lines P aid f ls = (x, es) \<Longrightarrow> e \<in> set es \<Longrightarrow> \<exists>c. e = SetContent aid c"
    using Cons.IH by (metis snd_conv)
  show ?case
    using Cons.prems ih Cons.IH
    by (auto split: if_splits option.splits prod.splits)
qed

lemma read_loop_effects:
  "e \<in> set (snd (read_loop P aid d full cs)) \<Longrightarrow> \<exists>c. e = SetContent aid c"
proof (induction cs arbitrary: d full)
  case Nil
  then show ?case by simp
next
  case (Cons chunk cs)
  obtain tx d1 where a: "decode_stream d chunk = (tx, d1)" by (cases "decode_stream d chunk")
  obtain full1 es1 where b: "render_lines P aid full (chunk_lines tx) = (full1, es1)"
    by (cases "render_lines P aid full (chunk_lines tx)")
  obtain full2 es2 where c: "read_loop P aid d1 full1 cs = (full2, es2)"
    by (cases "read_loop P aid d1 full1 cs")
  from Cons.prems a b c have "e \<in> set es1 \<or> e \<in> set es2" by simp
  then show ?case
  proof
    assume "e \<in> set es1"
    then show ?thesis using render_lines_effects [of e P aid full "chunk_lines tx"] b by simp
  next
    assume "e \<in> set es2"
    then show ?thesis using Cons.IH [of d1 full1] c by simp
  qed
qed

lemma sendMessage_shape:
  "\<exists>rest.
     sendMessage P captured fetch now1 now2 userMessage =
       ([AppendMessage \<lparr>m_id = asc ''user-'' @ digits now1, m_role = User, m_content = userMessage\<rparr>,
         SetIsLoading True,
         AppendMessage \<lparr>m_id = asc ''assistant-'' @ digits now2, m_role = Assistant, m_content = []\<rparr>,
         Fetch (map to_request
            (captured @ [\<lparr>m_id = asc ''user-'' @ digits now1, m_role = User, m_content = userMessage\<rparr>]))],
        rest @ [SetIsLoading False])
     \<and> (\<forall>e \<in> set rest. \<exists>c. e = SetContent (asc ''assistant-'' @ digits now2) c)"
  unfolding sendMessage_def Let_def
  by (auto split: chat_result.splits option.splits prod.splits dest: read_loop_effects)

lemma run_effects_append: "run_effects st (xs @ ys) = run_effects (run_effects st xs) ys"
  by (simp add: run_effects_def)

lemma run_effects_Cons: "run_effects st (e # es) = run_effects (apply_effect st e) es"
  by (simp add: run_effects_def)

lemma run_effects_Nil: "run_effects st [] = st"
  by (simp add: run_effects_def)

lemma handleSubmit_shape:
  assumes "\<not> (trim (input st) = [] \<or> isLoading st)"
  shows "\<exists>rest.
     handleSubmit P fetch now1 now2 st =
       [AppendMessage \<lparr>m_id = asc ''user-'' @ digits now1, m_role = User, m_content = input st\<rparr>,
        SetIsLoading True,
        AppendMessage \<lparr>m_id = asc ''assistant-'' @ digits now2, m_role = Assistant, m_content = []\<rparr>,
        Fetch (map to_request
           (messages st @ [\<lparr>m_id = asc ''user-'' @ digits now1, m_role = User, m_content = input st\<rparr>])),
        SetInput []]
       @ rest @ [SetIsLoading False]
     \<and> (\<forall>e \<in> set rest. \<exists>c. e = SetContent (asc ''assistant-'' @ digits now2) c)"
proof -
  obtain rest where
    s: "sendMessage P (messages st) fetch now1 now2 (input st) =
       ([AppendMessage \<lparr>m_id = asc ''user-'' @ digits now1, m_role = User, m_content = input st\<rparr>,
         SetIsLoading True,
         AppendMessage \<lparr>m_id = asc ''assistant-'' @ digits now2, m_role = Assistant, m_content = []\<rparr>,
         Fetch (map to_request
            (messages st @ [\<lparr>m_id = asc ''user-'' @ digits now1, m_role = User, m_content = input st\<rparr>]))],
        rest @ [SetIsLoading False])"
    and r: "\<forall>e \<in> set rest. \<exists>c. e = SetContent (asc ''assistant-'' @ digits now2) c"
    using sendMessage_shape [of P "messages st" fetch now1 now2 "input st"] by blast
  show ?thesis
    using assms r by (intro exI [of _ rest]) (simp add: handleSubmit_def s)
qed

text \<open>
  Claim C10 (turn gate). When the input is empty or whitespace-only, or while the loading flag is
  set, \<open>handleSubmit\<close> does nothing: no effect at all, so no message is appended, no request is
  issued and the state is unchanged. Otherwise the turn sets the loading flag before its (only)
  call of \<open>fetch\<close>, and its last effect clears the flag, whatever \<open>fetch\<close> answers: the flag is
  clear in the state the turn ends in.
\<close>

theorem turn_gate:
  "(trim (input st) = [] \<or> isLoading st \<longrightarrow>
      handleSubmit P fetch now1 now2 st = []
      \<and> run_effects st (handleSubmit P fetch now1 now2 st) = st)
   \<and> (\<not> (trim (input st) = [] \<or> isLoading st) \<longrightarrow>
      (\<exists>u ph req rest.
         handleSubmit P fetch now1 now2 st =
           [AppendMessage u, SetIsLoading True, AppendMessage ph, Fetch req, SetInput []]
           @ rest @ [SetIsLoading False]
         \<and> (\<forall>e \<in> set rest. \<exists>i c. e = SetContent i c))
      \<and> isLoading (run_effects st (handleSubmit P fetch now1 now2 st)) = False)"
proof (intro conjI impI)
  assume "trim (input st) = [] \<or> isLoading st"
  then show "handleSubmit P fetch now1 now2 st = []"
    by (auto simp: handleSubmit_def)
  then show "run_effects st (handleSubmit P fetch now1 now2 st) = st"
    by (simp add: run_effects_def)
next
  assume g: "\<not> (trim (input st) = [] \<or> isLoading st)"
  from handleSubmit_shape [OF g, of P fetch now1 now2]
  obtain rest where
    h: "handleSubmit P fetch now1 now2 st =
       [AppendMessage \<lparr>m_id = asc ''user-'' @ digits now1, m_role = User, m_content = input st\<rparr>,
        SetIsLoading True,
        AppendMessage \<lparr>m_id = asc ''assistant-'' @ digits now2, m_role = Assistant, m_content = []\<rparr>,
        Fetch (map to_request
           (messages st @ [\<lparr>m_id = asc ''user-'' @ digits now1, m_role = User, m_content = input st\<rparr>])),
        SetInput []]
       @ rest @ [SetIsLoading False]"
    and r: "\<forall>e \<in> set rest. \<exists>c. e = SetContent (asc ''assistant-'' @ digits now2) c"
    by blast
  show "\<exists>u ph req rest.
         handleSubmit P fetch now1 now2 st =
           [AppendMessage u, SetIsLoading True, AppendMessage ph, Fetch req, SetInput []]
           @ rest @ [SetIsLoading False]
         \<and> (\<forall>e \<in> set rest. \<exists>i c. e = SetContent i c)"
    using h r by blast
  obtain es where "handleSubmit P fetch now1 now2 st = es @ [SetIsLoading False]"
    using h by (metis append.assoc)
  then show "isLoading (run_effects st (handleSubmit P fetch now1 now2 st)) = False"
    by (simp add: run_effects_def)
qed

lemma trim_blank: "trim (asc ''  '') = []"
  by code_simp

lemma trim_sample: "trim (input sample_state) \<noteq> []"
  by code_simp

theorem turn_gate_witness:
  "handleSubmit sample_platform (\<lambda>r. ChatRejected) 17 18 (sample_state\<lparr>input := asc ''  ''\<rparr>) = []
   \<and> handleSubmit sample_platform (\<lambda>r. ChatRejected) 17 18 (sample_state\<lparr>isLoading := True\<rparr>) = []
   \<and> isLoading (run_effects sample_state
        (handleSubmit sample_platform (\<lambda>r. ChatRejected) 17 18 sample_state)) = False"
  using turn_gate [of "sample_state\<lparr>input := asc ''  ''\<rparr>" sample_platform "\<lambda>r. ChatRejected" 17 18]
    turn_gate [of "sample_state\<lparr>isLoading := True\<rparr>" sample_platform "\<lambda>r. ChatRejected" 17 18]
    turn_gate [of sample_state sample_platform "\<lambda>r. ChatRejected" 17 18]
    trim_blank trim_sample
  by (simp add: sample_state_def)

lemma sendMessage_failed:
  "sendMessage P captured (\<lambda>r. ChatResponse 500 None) now1 now2 userMessage =
     ([AppendMessage \<lparr>m_id = asc ''user-'' @ digits now1, m_role = User, m_content = userMessage\<rparr>,
       SetIsLoading True,
       AppendMessage \<lparr>m_id = asc ''assistant-'' @ digits now2, m_role = Assistant, m_content = []\<rparr>,
       Fetch (map to_request
          (captured @ [\<lparr>m_id = asc ''user-'' @ digits now1, m_role = User, m_content = userMessage\<rparr>]))],
      [SetContent (asc ''assistant-'' @ digits now2) apology, SetIsLoading False])"
  by (simp add: sendMessage_def response_ok_def Let_def)

text \<open>
  Claim C9 (frame of the updates). Every effect of a turn after its two appends (each republished
  delta, the overwrite of the error path, the clearing of the loading flag) leaves the message list
  with the same length and order, and every message with its id and role; a message whose id is not
  the turn's placeholder id is left as it was, content included.
\<close>

theorem updates_frame:
  assumes "sendMessage P captured fetch now1 now2 userMessage = (started, finished)"
    and "e \<in> set finished"
  shows "length (messages (apply_effect st e)) = length (messages st)
    \<and> (\<forall>i < length (messages st).
          m_id (messages (apply_effect st e) ! i) = m_id (messages st ! i)
          \<and> m_role (messages (apply_effect st e) ! i) = m_role (messages st ! i)
          \<and> (m_id (messages st ! i) \<noteq> asc ''assistant-'' @ digits now2 \<longrightarrow>
               messages (apply_effect st e) ! i = messages st ! i))"
proof -
  from sendMessage_shape [of P captured fetch now1 now2 userMessage] assms(1)
  obtain rest where f: "finished = rest @ [SetIsLoading False]"
    and r: "\<forall>e \<in> set rest. \<exists>c. e = SetContent (asc ''assistant-'' @ digits now2) c"
    by auto
  from assms(2) f r consider "e = SetIsLoading False"
    | c where "e = SetContent (asc ''assistant-'' @ digits now2) c"
    by auto
  then show ?thesis
  proof cases
    case 1
    then show ?thesis by simp
  next
    case 2
    then show ?thesis by simp
  qed
qed

theorem updates_frame_witness:
  "SetContent (asc ''assistant-'' @ digits 18) apology
     \<in> set (snd (sendMessage sample_platform [] (\<lambda>r. ChatResponse 500 None) 17 18 (asc ''hi'')))
   \<and> length (messages (apply_effect
        (sample_state\<lparr>messages :=
           [\<lparr>m_id = asc ''user-'' @ digits 17, m_role = User, m_content = asc ''hi''\<rparr>,
            \<lparr>m_id = asc ''assistant-'' @ digits 18, m_role = Assistant, m_content = []\<rparr>]\<rparr>)
        (SetContent (asc ''assistant-'' @ digits 18) apology))) = 2
   \<and> m_role (messages (apply_effect
        (sample_state\<lparr>messages :=
           [\<lparr>m_id = asc ''user-'' @ digits 17, m_role = User, m_content = asc ''hi''\<rparr>,
            \<lparr>m_id = asc ''assistant-'' @ digits 18, m_role = Assistant, m_content = []\<rparr>]\<rparr>)
        (SetContent (asc ''assistant-'' @ digits 18) apology)) ! 1) = Assistant"
  using updates_frame [OF sendMessage_failed [of sample_platform "[]" 17 18 "asc ''hi''"],
      of "SetContent (asc ''assistant-'' @ digits 18) apology"
        "sample_state\<lparr>messages :=
           [\<lparr>m_id = asc ''user-'' @ digits 17, m_role = User, m_content = asc ''hi''\<rparr>,
            \<lparr>m_id = asc ''assistant-'' @ digits 18, m_role = Assistant, m_content = []\<rparr>]\<rparr>"]
  by (simp add: sendMessage_failed)

text \<open>
  Claim C6 (error path). When the request fails (\<open>fetch\<close> rejects, the status is not a success
  status, or the response has no body) the turn still runs to its end as a list of effects: its
  only update of the conversation after the two appends sets the placeholder's content to the
  fixed apology, and the turn ends with that apology as the assistant content and the loading flag
  clear.
\<close>

theorem failed_request_apology:
  assumes "\<not> (trim (input st) = [] \<or> isLoading st)"
    and "fetch (map to_request
           (messages st @ [\<lparr>m_id = asc ''user-'' @ digits now1, m_role = User, m_content = input st\<rparr>]))
         = r"
    and "r = ChatRejected \<or> (\<exists>code b. r = ChatResponse code b \<and> (\<not> response_ok code \<or> b = None))"
  shows "handleSubmit P fetch now1 now2 st =
       [AppendMessage \<lparr>m_id = asc ''user-'' @ digits now1, m_role = User, m_content = input st\<rparr>,
        SetIsLoading True,
        AppendMessage \<lparr>m_id = asc ''assistant-'' @ digits now2, m_role = Assistant, m_content = []\<rparr>,
        Fetch (map to_request
           (messages st @ [\<lparr>m_id = asc ''user-'' @ digits now1, m_role = User, m_content = input st\<rparr>])),
        SetInput [],
        SetContent (asc ''assistant-'' @ digits now2) apology,
        SetIsLoading False]
    \<and> last (messages (run_effects st (handleSubmit P fetch now1 now2 st)))
        = \<lparr>m_id = asc ''assistant-'' @ digits now2, m_role = Assistant, m_content = apology\<rparr>
    \<and> isLoading (run_effects st (handleSubmit P fetch now1 now2 st)) = False"
proof -
  have h: "handleSubmit P fetch now1 now2 st =
       [AppendMessage \<lparr>m_id = asc ''user-'' @ digits now1, m_role = User, m_content = input st\<rparr>,
        SetIsLoading True,
        AppendMessage \<lparr>m_id = asc ''assistant-'' @ digits now2, m_role = Assistant, m_content = []\<rparr>,
        Fetch (map to_request
           (messages st @ [\<lparr>m_id = asc ''user-'' @ digits now1, m_role = User, m_content = input st\<rparr>])),
        SetInput [],
        SetContent (asc ''assistant-'' @ digits now2) apology,
        SetIsLoading False]"
    using assms by (auto simp add: handleSubmit_def sendMessage_def Let_def)
  show ?thesis
    unfolding h by (simp add: run_effects_def)
qed

theorem failed_request_apology_witness:
  "m_content (last (messages (run_effects sample_state
       (handleSubmit sample_platform (\<lambda>r. ChatResponse 401 (Some ([], Closed))) 17 18 sample_state))))
     = apology
   \<and> m_content (last (messages (run_effects sample_state
       (handleSubmit sample_platform (\<lambda>r. ChatRejected) 17 18 sample_state)))) = apology
   \<and> m_content (last (messages (run_effects sample_state
       (handleSubmit sample_platform (\<lambda>r. ChatResponse 200 None) 17 18 sample_state)))) = apology"
proof -
  have g: "\<not> (trim (input sample_state) = [] \<or> isLoading sample_state)"
    using trim_sample by (simp add: sample_state_def)
  have a: "m_content (last (messages (run_effects sample_state
       (handleSubmit sample_platform (\<lambda>r. ChatResponse 401 (Some ([], Closed))) 17 18 sample_state))))
     = apology"
    using failed_request_apology [OF g, where fetch = "\<lambda>r. ChatResponse 401 (Some ([], Closed))"
        and r = "ChatResponse 401 (Some ([], Closed))" and P = sample_platform
        and ?now1.0 = 17 and ?now2.0 = 18,
        THEN conjunct2, THEN conjunct1]
    by (simp add: response_ok_def)
  have b: "m_content (last (messages (run_effects sample_state
       (handleSubmit sample_platform (\<lambda>r. ChatRejected) 17 18 sample_state)))) = apology"
    using failed_request_apology [OF g, where fetch = "\<lambda>r. ChatRejected" and r = ChatRejected
        and P = sample_platform and ?now1.0 = 17 and ?now2.0 = 18,
        THEN conjunct2, THEN conjunct1]
    by simp
  have c: "m_content (last (messages (run_effects sample_state
       (handleSubmit sample_platform (\<lambda>r. ChatResponse 200 None) 17 18 sample_state)))) = apology"
    using failed_request_apology [OF g, where fetch = "\<lambda>r. ChatResponse 200 None"
        and r = "ChatResponse 200 None" and P = sample_platform and ?now1.0 = 17 and ?now2.0 = 18,
        THEN conjunct2, THEN conjunct1]
    by simp
  show ?thesis using a b c by simp
qed

text \<open>
  Claim C8 (what the request carries). As stated the claim fails: the request is built from
  \<open>[...messages, userMsg]\<close>, so it does not carry the conversation as it is after the two appends.
  With an empty history and the text \<open>hi\<close>, the conversation after the appends is the user
  message and the empty assistant placeholder, and the request carries the user message only.
\<close>

theorem request_not_post_append_counterexample:
  "\<forall>P fetch.
     fst (sendMessage P [] fetch 17 18 (asc ''hi'')) =
       [AppendMessage \<lparr>m_id = asc ''user-'' @ digits 17, m_role = User, m_content = asc ''hi''\<rparr>,
        SetIsLoading True,
        AppendMessage \<lparr>m_id = asc ''assistant-'' @ digits 18, m_role = Assistant, m_content = []\<rparr>,
        Fetch [\<lparr>role = asc ''user'', content = asc ''hi''\<rparr>]]
     \<and> map to_request (messages (run_effects (sample_state\<lparr>input := asc ''hi''\<rparr>)
           (butlast (fst (sendMessage P [] fetch 17 18 (asc ''hi''))))))
         = [\<lparr>role = asc ''user'', content = asc ''hi''\<rparr>,
            \<lparr>role = asc ''assistant'', content = []\<rparr>]
     \<and> [\<lparr>role = asc ''user'', content = asc ''hi''\<rparr>]
         \<noteq> map to_request (messages (run_effects (sample_state\<lparr>input := asc ''hi''\<rparr>)
           (butlast (fst (sendMessage P [] fetch 17 18 (asc ''hi''))))))"
  by (simp add: sendMessage_def Let_def run_effects_def sample_state_def to_request_def
      role_name_def)

text \<open>
  Claim C8, amended. In every turn the request issued after the two appends carries, as
  role/content pairs in conversation order, the conversation as it was before the turn followed by
  the new user message; the empty assistant placeholder, the last message of the conversation after
  the appends, is not part of it.
\<close>

theorem request_carries_history:
  assumes "sendMessage P (messages st) fetch now1 now2 userMessage = (started, finished)"
  shows "\<exists>u ph.
      started = [AppendMessage u, SetIsLoading True, AppendMessage ph,
                 Fetch (map to_request (messages st @ [u]))]
      \<and> m_role u = User \<and> m_content u = userMessage
      \<and> m_role ph = Assistant \<and> m_content ph = []
      \<and> messages (run_effects st (butlast started)) = messages st @ [u, ph]
      \<and> map to_request (messages st @ [u])
          = map (\<lambda>m. \<lparr>role = role_name (m_role m), content = m_content m\<rparr>)
              (butlast (messages (run_effects st (butlast started))))"
  using assms
  by (auto simp add: sendMessage_def Let_def run_effects_def to_request_def butlast_append)

theorem request_carries_history_witness:
  "\<exists>u ph.
      fst (sendMessage sample_platform (messages sample_state) (\<lambda>r. ChatRejected) 17 18 (asc ''hi''))
        = [AppendMessage u, SetIsLoading True, AppendMessage ph,
           Fetch (map to_request (messages sample_state @ [u]))]
      \<and> m_content u = asc ''hi'' \<and> m_content ph = []"
  using request_carries_history [of sample_platform sample_state "\<lambda>r. ChatRejected" 17 18
      "asc ''hi''"
      "fst (sendMessage sample_platform (messages sample_state) (\<lambda>r. ChatRejected) 17 18 (asc ''hi''))"
      "snd (sendMessage sample_platform (messages sample_state) (\<lambda>r. ChatRejected) 17 18 (asc ''hi''))"]
  by auto

section \<open>The handler's request and its failure response\<close>

lemma failure_body_parses:
  "JSON_parse (asc ''{'' @ QuoteJSONString (asc ''error'') @ asc '':''
               @ QuoteJSONString (asc ''Failed to process chat request'') @ asc ''}'')
   = Some (JObj [(asc ''error'', JStr (asc ''Failed to process chat request''))])"
  by code_simp

text \<open>
  Claim C3 (upstream failure). When the upstream provider answers with a status that is not a
  success status, the handler returns the response of its \<open>catch\<close> block: status 500, which is not
  a success status, and a JSON body that is an object with the single field \<open>error\<close>; the body is
  not a delta stream. The handler has issued exactly one request to the upstream: nothing is
  retried.
\<close>

theorem upstream_failure_response:
  assumes "fetch (chat_request key msgs) = UpstreamResponse code upstream_body"
    and "\<not> response_ok code"
  shows "POST P key fetch (Some msgs) = (failure_response, [chat_request key msgs])
    \<and> status failure_response = 500
    \<and> \<not> response_ok (status failure_response)
    \<and> (\<exists>t. body failure_response = JsonBody t
          \<and> JSON_parse t = Some (JObj [(asc ''error'', JStr (asc ''Failed to process chat request''))]))
    \<and> (\<forall>chunks. body (fst (POST P key fetch (Some msgs))) \<noteq> StreamBody chunks)"
  using assms failure_body_parses
  by (simp add: POST_def Let_def failure_response_def response_ok_def)

theorem upstream_failure_response_witness:
  "POST sample_platform None (\<lambda>r. UpstreamResponse 401 (Some [])) (Some [])
     = (failure_response, [chat_request None []])
   \<and> status (fst (POST sample_platform None (\<lambda>r. UpstreamResponse 401 (Some [])) (Some []))) = 500"
  using upstream_failure_response [of "\<lambda>r. UpstreamResponse 401 (Some [])" None "[]" 401 "Some []"
      sample_platform]
  by (simp add: response_ok_def)

text \<open>The content of an upstream message as claim C4 words it: the message's content when
  supplied, otherwise the text of its text-typed parts, otherwise the empty string.\<close>

definition content_as_claimed :: "api_message \<Rightarrow> jstr" where
  "content_as_claimed msg =
     (case api_content msg of
        Some c \<Rightarrow> c
      | None \<Rightarrow> (case api_parts msg of Some ps \<Rightarrow> parts_text ps | None \<Rightarrow> []))"

text \<open>
  Claim C4 (the message list sent upstream). As stated the claim fails where a message supplies an
  empty content together with parts: \<open>msg.content || ...\<close> treats the empty string as absent,
  so the text of the parts is sent, not the supplied (empty) content.
\<close>

theorem supplied_empty_content_counterexample:
  "content (coreMessage
       \<lparr>api_role = asc ''user'', api_content = Some [],
        api_parts = Some [\<lparr>part_type = asc ''text'', part_text = Some (asc ''hi'')\<rparr>]\<rparr>)
     = asc ''hi''
   \<and> content_as_claimed
       \<lparr>api_role = asc ''user'', api_content = Some [],
        api_parts = Some [\<lparr>part_type = asc ''text'', part_text = Some (asc ''hi'')\<rparr>]\<rparr>
     = []
   \<and> content (coreMessage
       \<lparr>api_role = asc ''user'', api_content = Some [],
        api_parts = Some [\<lparr>part_type = asc ''text'', part_text = Some (asc ''hi'')\<rparr>]\<rparr>)
     \<noteq> content_as_claimed
       \<lparr>api_role = asc ''user'', api_content = Some [],
        api_parts = Some [\<lparr>part_type = asc ''text'', part_text = Some (asc ''hi'')\<rparr>]\<rparr>"
  by (simp add: coreMessage_def content_as_claimed_def or_else_def or_default_def parts_text_def
      asc_def)

text \<open>
  Claim C4, amended. For every received message list, the one request the handler issues carries
  the fixed system message followed by the normalized input messages in their original order, each
  with its role and with content equal to: the message's content when supplied and not empty,
  otherwise the concatenation in document order of the text of its text-typed parts, otherwise the
  empty string. This is the content the claim words, for every message whose supplied content is
  not the empty string.
\<close>

theorem upstream_message_list:
  "snd (POST P key fetch (Some msgs)) = [chat_request key msgs]
   \<and> req_messages (chat_request key msgs)
       = \<lparr>role = asc ''system'', content = SYSTEM_PROMPT\<rparr> # map coreMessage msgs
   \<and> (\<forall>m. role (coreMessage m) = api_role m
          \<and> content (coreMessage m)
              = (if api_content m \<noteq> None \<and> api_content m \<noteq> Some [] then the (api_content m)
                 else (case api_parts m of Some ps \<Rightarrow> parts_text ps | None \<Rightarrow> [])))
   \<and> (\<forall>m. api_content m \<noteq> Some [] \<longrightarrow> content (coreMessage m) = content_as_claimed m)"
proof (intro conjI allI impI)
  show "snd (POST P key fetch (Some msgs)) = [chat_request key msgs]"
    by (simp add: POST_def Let_def split: upstream_result.splits)
  show "req_messages (chat_request key msgs)
       = \<lparr>role = asc ''system'', content = SYSTEM_PROMPT\<rparr> # map coreMessage msgs"
    by (simp add: chat_request_def messagesWithSystem_def)
next
  fix m :: api_message
  show "role (coreMessage m) = api_role m" by (simp add: coreMessage_def)
  show "content (coreMessage m)
      = (if api_content m \<noteq> None \<and> api_content m \<noteq> Some [] then the (api_content m)
         else (case api_parts m of Some ps \<Rightarrow> parts_text ps | None \<Rightarrow> []))"
    by (auto simp add: coreMessage_def or_else_def or_default_def split: option.splits)
next
  fix m :: api_message
  assume "api_content m \<noteq> Some []"
  then show "content (coreMessage m) = content_as_claimed m"
    by (auto simp add: coreMessage_def content_as_claimed_def or_else_def or_default_def
        split: option.splits)
qed

theorem upstream_message_list_witness:
  "req_messages (hd (snd (POST sample_platform None (\<lambda>r. UpstreamRejected)
       (Some [\<lparr>api_role = asc ''user'', api_content = Some (asc ''Do you offer carpet cleaning?''),
               api_parts = None\<rparr>]))))
     = [\<lparr>role = asc ''system'', content = SYSTEM_PROMPT\<rparr>,
        \<lparr>role = asc ''user'', content = asc ''Do you offer carpet cleaning?''\<rparr>]"
proof -
  have n: "asc ''Do you offer carpet cleaning?'' \<noteq> []" by (simp add: asc_def)
  show ?thesis
    using upstream_message_list [of sample_platform None "\<lambda>r. UpstreamRejected"
        "[\<lparr>api_role = asc ''user'', api_content = Some (asc ''Do you offer carpet cleaning?''),
           api_parts = None\<rparr>]"] n
    by (simp add: content_as_claimed_def)
qed

section \<open>The transformer, line by line\<close>

lemma transform_line_out: "snd (transform_line P full line) = emitted P line"
  by (simp add: emitted_def transform_line_def Let_def
      split: option.splits sum.splits)

lemma transform_lines_out:
  "snd (transform_lines P full ls) = concat (map (emitted P) ls)"
proof (induction ls arbitrary: full)
  case Nil
  then show ?case by simp
next
  case (Cons l ls)
  obtain f1 o1 where a: "transform_line P full l = (f1, o1)" by (cases "transform_line P full l")
  obtain f2 o2 where b: "transform_lines P f1 ls = (f2, o2)" by (cases "transform_lines P f1 ls")
  have "o1 = emitted P l" using transform_line_out [of P full l] a by simp
  moreover have "o2 = concat (map (emitted P) ls)" using Cons.IH [of f1] b by simp
  ultimately show ?case using a b by simp
qed

lemma pipeThrough_out:
  "pipeThrough P st cs = map encode (concat (map (emitted P) (stream_lines (t_decoder st) cs)))"
proof (induction cs arbitrary: st)
  case Nil
  then show ?case by simp
next
  case (Cons c cs)
  obtain tx d where a: "decode_stream (t_decoder st) c = (tx, d)"
    by (cases "decode_stream (t_decoder st) c")
  obtain f out where b: "transform_lines P (t_fullContent st) (chunk_lines tx) = (f, out)"
    by (cases "transform_lines P (t_fullContent st) (chunk_lines tx)")
  have o: "out = concat (map (emitted P) (chunk_lines tx))"
    using transform_lines_out [of P "t_fullContent st" "chunk_lines tx"] b by simp
  have t: "transform P st c = (map encode out, \<lparr>t_decoder = d, t_fullContent = f\<rparr>)"
    by (simp add: transform_def a b)
  show ?case
    using Cons.IH [of "\<lparr>t_decoder = d, t_fullContent = f\<rparr>"] a o t by simp
qed

lemma length_data_prefix: "length (asc ''data: '') = 6"
  by (simp add: asc_def)

lemma done_line: "asc ''data: [DONE]'' = asc ''data: '' @ asc ''[DONE]''"
  by (simp add: asc_def)

lemma starts_with_append: "starts_with (p @ s) p"
  by (simp add: starts_with_def)

lemma starts_with_split: "starts_with line p \<Longrightarrow> line = p @ drop (length p) line"
  by (metis append_take_drop_id starts_with_def)

lemma emitted_done: "emitted P (asc ''data: [DONE]'') = [finish_line]"
  by (simp add: emitted_def transform_line_def done_line starts_with_append length_data_prefix)

lemma emitted_cases:
  "emitted P line = []
   \<or> (line = asc ''data: [DONE]'' \<and> emitted P line = [finish_line])
   \<or> (line \<noteq> asc ''data: [DONE]'' \<and> (\<exists>c. emitted P line = [delta_line P c]))"
proof (cases "starts_with line (asc ''data: '')")
  case False
  then show ?thesis by (simp add: emitted_def transform_line_def)
next
  case True
  then have l: "line = asc ''data: '' @ drop 6 line"
    using starts_with_split [of line "asc ''data: ''"] by (simp add: length_data_prefix)
  show ?thesis
  proof (cases "drop 6 line = asc ''[DONE]''")
    case d: True
    then have "line = asc ''data: [DONE]''" using l by (simp add: done_line)
    then show ?thesis by (simp add: emitted_done)
  next
    case d: False
    then have "line \<noteq> asc ''data: [DONE]''"
      by (auto simp add: done_line length_data_prefix)
    then show ?thesis
      using True d
      by (auto simp add: emitted_def transform_line_def Let_def split: option.splits sum.splits)
  qed
qed

lemma lex_quoted:
  "tokenize (QuoteJSONString k @ r) = map_option (Cons (TString k)) (tokenize r)"
  using lex_string_quote_units [of k r]
  by (simp add: QuoteJSONString_def is_json_space_def)

lemma lex_punct:
  "tokenize (0x7B # r) = map_option (Cons TLBrace) (tokenize r)"
  "tokenize (0x7D # r) = map_option (Cons TRBrace) (tokenize r)"
  "tokenize (0x5B # r) = map_option (Cons TLBrack) (tokenize r)"
  "tokenize (0x5D # r) = map_option (Cons TRBrack) (tokenize r)"
  "tokenize (0x3A # r) = map_option (Cons TColon) (tokenize r)"
  by (simp_all add: is_json_space_def)

lemma event_split: "event s = asc ''data: '' @ event_json s"
  by (simp add: event_def event_json_def asc_def)

lemma lex_event_json:
  "tokenize (event_json s) =
     Some [TLBrace, TString (asc ''choices''), TColon, TLBrack, TLBrace,
           TString (asc ''delta''), TColon, TLBrace, TString (asc ''content''), TColon,
           TString s, TRBrace, TRBrace, TRBrack, TRBrace]"
proof -
  have p: "asc ''{'' = [0x7B]" "asc '':[{'' = [0x3A, 0x5B, 0x7B]" "asc '':{'' = [0x3A, 0x7B]"
    "asc '':'' = [0x3A]" "asc ''}}]}'' = [0x7D, 0x7D, 0x5D, 0x7D]"
    by (simp_all add: asc_def)
  show ?thesis
    unfolding event_json_def p
    by (simp add: lex_quoted lex_punct del: tokenize.simps(2))
qed

lemma parse_event_json:
  "JSON_parse (event_json s) =
     Some (JObj [(asc ''choices'',
             JArr [JObj [(asc ''delta'', JObj [(asc ''content'', JStr s)])]])])"
  by (simp add: JSON_parse_def lex_event_json)

lemma delta_content_event:
  "delta_content (JObj [(asc ''choices'',
             JArr [JObj [(asc ''delta'', JObj [(asc ''content'', JStr s)])]])])
   = Inr (Some (JStr s))"
  by (simp add: delta_content_def get_member_def get_first_def opt_chain_def)

lemma event_json_not_done: "event_json s \<noteq> asc ''[DONE]''"
  by (simp add: event_json_def asc_def)

lemma transform_line_event:
  "transform_line P full (event s) =
     (if s = [] then (full, []) else (full @ s, [delta_line P (JStr s)]))"
  by (simp add: transform_line_def event_split starts_with_append length_data_prefix
      event_json_not_done parse_event_json delta_content_event to_string_def)

lemma emitted_event: "emitted P (event s) = (if s = [] then [] else [delta_line P (JStr s)])"
  by (simp add: emitted_def transform_line_event)

lemma new_decoder_dstate: "new_decoder = dstate 0 0 0 0x80 0xBF False"
  by (simp add: new_decoder_def dstate_def)

lemma stream_lines_single:
  assumes "well_formed t" and "t \<noteq> []" and "hd t \<noteq> 0xFEFF"
  shows "stream_lines new_decoder [encode t] = chunk_lines t"
  using decode_encode [of t False] assms by (simp add: new_decoder_dstate)

lemma delta_line_prefix: "starts_with (delta_line P c) (asc ''0:'')"
  by (simp add: delta_line_def starts_with_append)

lemma done_then_event_text:
  "well_formed done_then_event" "done_then_event \<noteq> []" "hd done_then_event \<noteq> 0xFEFF"
  "chunk_lines done_then_event = [asc ''data: [DONE]'', event (asc ''x'')]"
  by code_simp+

text \<open>
  Claim C2 (the terminal line). As stated the claim fails: the \<open>[DONE]\<close> branch ends with
  \<open>continue\<close>, so the transformer goes on with the lines that follow. For the upstream chunk
  \<open>data: [DONE]\<close>, newline, an event with content \<open>x\<close>, newline, the output is the terminal
  line followed by the delta line \<open>0:"x"\<close>.
\<close>

theorem done_does_not_finish_counterexample:
  "\<forall>P. stream_lines new_decoder [encode done_then_event]
         = [asc ''data: [DONE]'', event (asc ''x'')]
       \<and> pipeThrough P new_transformer [encode done_then_event]
         = [encode finish_line, encode (asc ''0:'' @ QuoteJSONString (asc ''x'') @ [0x0A])]"
proof -
  have l: "stream_lines new_decoder [encode done_then_event]
      = [asc ''data: [DONE]'', event (asc ''x'')]"
    using stream_lines_single [of done_then_event] done_then_event_text by simp
  have n: "asc ''x'' \<noteq> []" by (simp add: asc_def)
  show ?thesis
    using l n
    by (simp add: pipeThrough_out new_transformer_def emitted_done emitted_event delta_line_def
        JSON_stringify_def)
qed

text \<open>
  Claim C2, amended. The output of the transformer is, line by line, what each line it reads
  enqueues. Every line \<open>data: [DONE]\<close> that it reads (a line that reaches it whole within one
  chunk) enqueues exactly one terminal line, at that point of the output; every other line
  enqueues nothing or one \<open>0:\<close> line; no finished state is kept, so later lines are still
  translated. When \<open>data: [DONE]\<close> is read once and no line read after it is an event line (a
  line with the \<open>data: \<close> prefix), the output is \<open>0:\<close> lines followed by exactly one terminal
  line: the terminal line is the last line and no \<open>0:\<close> line follows it.
\<close>

theorem done_last_event_line:
  assumes "stream_lines new_decoder chunks = pre @ [asc ''data: [DONE]''] @ post"
    and "asc ''data: [DONE]'' \<notin> set pre"
    and "\<forall>l \<in> set post. \<not> starts_with l (asc ''data: '')"
  shows "emitted P (asc ''data: [DONE]'') = [finish_line]
    \<and> pipeThrough P new_transformer chunks
        = map encode (concat (map (emitted P) pre) @ [finish_line])
    \<and> (\<forall>d \<in> set (concat (map (emitted P) pre)). starts_with d (asc ''0:''))
    \<and> finish_line \<notin> set (concat (map (emitted P) pre))"
proof -
  have post: "concat (map (emitted P) post) = []"
    using assms(3) by (induction post) (simp_all add: emitted_def transform_line_def)
  have pre: "\<forall>d \<in> set (concat (map (emitted P) pre)). \<exists>c. d = delta_line P c"
  proof
    fix d
    assume "d \<in> set (concat (map (emitted P) pre))"
    then obtain l where l: "l \<in> set pre" "d \<in> set (emitted P l)" by auto
    then have "l \<noteq> asc ''data: [DONE]''" using assms(2) by auto
    then show "\<exists>c. d = delta_line P c"
      using emitted_cases [of P l] l(2) by auto
  qed
  have nf: "\<And>c. finish_line \<noteq> delta_line P c"
    by (simp add: finish_line_def delta_line_def asc_def)
  have a: "pipeThrough P new_transformer chunks
        = map encode (concat (map (emitted P) pre) @ [finish_line])"
    using assms(1) post by (simp add: pipeThrough_out new_transformer_def emitted_done)
  have b: "\<forall>d \<in> set (concat (map (emitted P) pre)). starts_with d (asc ''0:'')"
  proof
    fix d
    assume "d \<in> set (concat (map (emitted P) pre))"
    then obtain c where "d = delta_line P c" using pre by blast
    then show "starts_with d (asc ''0:'')" by (simp add: delta_line_prefix)
  qed
  have c: "finish_line \<notin> set (concat (map (emitted P) pre))"
  proof
    assume "finish_line \<in> set (concat (map (emitted P) pre))"
    then obtain c where "finish_line = delta_line P c" using pre by blast
    then show False using nf by simp
  qed
  show ?thesis using a b c emitted_done by blast
qed

lemma scenario_upstream_text:
  "well_formed scenario_upstream" "scenario_upstream \<noteq> []" "hd scenario_upstream \<noteq> 0xFEFF"
  "chunk_lines scenario_upstream
     = [event (asc ''Yes''), event (asc '', we''), event (asc '' do.''), asc ''data: [DONE]'']"
  by code_simp+

lemma scenario_no_done:
  "asc ''data: [DONE]'' \<notin> set [event (asc ''Yes''), event (asc '', we''), event (asc '' do.'')]"
  by code_simp

theorem done_last_event_line_witness:
  "pipeThrough sample_platform new_transformer [encode scenario_upstream]
     = map encode
         [asc ''0:'' @ QuoteJSONString (asc ''Yes'') @ [0x0A],
          asc ''0:'' @ QuoteJSONString (asc '', we'') @ [0x0A],
          asc ''0:'' @ QuoteJSONString (asc '' do.'') @ [0x0A],
          finish_line]"
proof -
  have l: "stream_lines new_decoder [encode scenario_upstream]
      = [event (asc ''Yes''), event (asc '', we''), event (asc '' do.'')]
        @ [asc ''data: [DONE]''] @ []"
    using stream_lines_single [of scenario_upstream] scenario_upstream_text by simp
  have n: "asc ''Yes'' \<noteq> []" "asc '', we'' \<noteq> []" "asc '' do.'' \<noteq> []"
    by (simp_all add: asc_def)
  show ?thesis
    using done_last_event_line [OF l scenario_no_done, of sample_platform] n
    by (simp add: emitted_event delta_line_def JSON_stringify_def)
qed

lemma emitted_malformed: "malformed data \<Longrightarrow> emitted P (asc ''data: '' @ data) = []"
  by (auto simp add: malformed_def emitted_def transform_line_def starts_with_append
      length_data_prefix split: option.splits sum.splits)

lemma emitted_carries_content: "carries_content P line c \<Longrightarrow> emitted P line = [delta_line P c]"
  by (auto simp add: carries_content_def emitted_def transform_line_def Let_def
      split: option.splits sum.splits)

text \<open>
  Claim C5 (malformed events). An event line whose payload after the \<open>data: \<close> prefix is neither
  \<open>[DONE]\<close> nor parseable as JSON with a first-choice delta content enqueues nothing, and is not
  fatal: the output of the whole stream is the output for the lines before it followed by the
  output for the lines after it, and every later event line that carries content still enqueues
  its \<open>0:\<close> line.
\<close>

theorem malformed_event_skipped:
  assumes "malformed data"
    and "stream_lines new_decoder chunks = pre @ [asc ''data: '' @ data] @ post"
  shows "emitted P (asc ''data: '' @ data) = []
    \<and> pipeThrough P new_transformer chunks
        = map encode (concat (map (emitted P) pre) @ concat (map (emitted P) post))
    \<and> (\<forall>l \<in> set post. \<forall>c. carries_content P l c \<longrightarrow> emitted P l = [delta_line P c])"
  using assms
  by (simp add: pipeThrough_out new_transformer_def emitted_malformed emitted_carries_content)

lemma malformed_between_text:
  "well_formed malformed_between" "malformed_between \<noteq> []" "hd malformed_between \<noteq> 0xFEFF"
  "chunk_lines malformed_between
     = [event (asc ''a''), asc ''data: '' @ asc ''{not json'', event (asc ''b'')]"
  "malformed (asc ''{not json'')"
  by code_simp+

theorem malformed_event_skipped_witness:
  "pipeThrough sample_platform new_transformer [encode malformed_between]
     = map encode
         [asc ''0:'' @ QuoteJSONString (asc ''a'') @ [0x0A],
          asc ''0:'' @ QuoteJSONString (asc ''b'') @ [0x0A]]
   \<and> emitted sample_platform (asc ''data: '' @ asc ''{not json'') = []"
proof -
  have l: "stream_lines new_decoder [encode malformed_between]
      = [event (asc ''a'')] @ [asc ''data: '' @ asc ''{not json''] @ [event (asc ''b'')]"
    using stream_lines_single [of malformed_between] malformed_between_text by simp
  have n: "asc ''a'' \<noteq> []" "asc ''b'' \<noteq> []"
    by (simp_all add: asc_def)
  show ?thesis
    using malformed_event_skipped [OF malformed_between_text(5) l, of sample_platform] n
    by (simp add: emitted_event delta_line_def JSON_stringify_def)
qed

section \<open>Lines that reach the renderer whole\<close>

lemma unat_hex_digit: "n < 16 \<Longrightarrow> unat (hex_digit n) = (if n < 10 then 48 + n else 87 + n)"
  by (simp add: hex_digit_def unat_of_nat del: of_nat_add)

lemma hex_digit_plain:
  assumes "n < 16"
  shows "hex_digit n \<noteq> 0x0A" and "\<not> is_surrogate (hex_digit n)"
proof -
  show "hex_digit n \<noteq> 0x0A"
  proof
    assume "hex_digit n = 0x0A"
    then have "unat (hex_digit n) = 10" by simp
    then show False using unat_hex_digit [OF assms] by (simp split: if_splits)
  qed
  show "\<not> is_surrogate (hex_digit n)"
    using unat_hex_digit [OF assms] assms
    by (simp add: is_surrogate_def word_le_nat_alt split: if_splits)
qed

lemma unicode_escape_plain:
  "0x0A \<notin> set (unicode_escape c)" "well_formed (unicode_escape c)"
proof -
  have b: "unat c < 65536" using unsigned_less [of c] by simp
  then have a: "unat c div 4096 < 16" by simp
  have p: "\<not> is_surrogate (0x5C :: cu)" "\<not> is_surrogate (0x75 :: cu)"
    by (simp_all add: is_surrogate_def)
  show "0x0A \<notin> set (unicode_escape c)"
    using a hex_digit_plain(1) [of "unat c div 4096"] hex_digit_plain(1) [of "unat c div 256 mod 16"]
      hex_digit_plain(1) [of "unat c div 16 mod 16"] hex_digit_plain(1) [of "unat c mod 16"]
    by (auto simp add: unicode_escape_def)
  show "well_formed (unicode_escape c)"
    using a p hex_digit_plain(2) [of "unat c div 4096"] hex_digit_plain(2) [of "unat c div 256 mod 16"]
      hex_digit_plain(2) [of "unat c div 16 mod 16"] hex_digit_plain(2) [of "unat c mod 16"]
    by (simp add: unicode_escape_def well_formed_Cons)
qed

lemma surrogate_split: "is_surrogate c \<longleftrightarrow> is_high_surrogate c \<or> is_low_surrogate c"
  by (auto simp add: is_surrogate_def is_high_surrogate_def is_low_surrogate_def
      word_le_nat_alt)

lemma quote_unit_plain: "0x0A \<notin> set (quote_unit c)" "well_formed (quote_unit c)"
proof -
  show "0x0A \<notin> set (quote_unit c)"
    using unicode_escape_plain(1) [of c] by (auto simp add: quote_unit_def)
  show "well_formed (quote_unit c)"
    using unicode_escape_plain(2) [of c]
    by (auto simp add: quote_unit_def surrogate_split is_high_surrogate_def
        is_low_surrogate_def)
qed

lemma high_not_newline: "is_high_surrogate c \<Longrightarrow> c \<noteq> 0x0A"
  by (auto simp add: is_high_surrogate_def)

lemma low_not_newline: "is_low_surrogate c \<Longrightarrow> c \<noteq> 0x0A"
  by (auto simp add: is_low_surrogate_def)

lemma quote_units_plain: "0x0A \<notin> set (quote_units s) \<and> well_formed (quote_units s)"
proof (induction s rule: quote_units.induct)
  case 1
  then show ?case by simp
next
  case (2 c)
  then show ?case using quote_unit_plain [of c] by simp
next
  case (3 c d cs)
  show ?case
  proof (cases "is_high_surrogate c \<and> is_low_surrogate d")
    case True
    then show ?thesis using 3 by (simp add: high_not_newline low_not_newline)
  next
    case False
    then have "quote_units (c # d # cs) = quote_unit c @ quote_units (d # cs)" by auto
    then show ?thesis
      using False 3(2) quote_unit_plain [of c] by (auto simp add: well_formed_append)
  qed
qed

lemma split_nl_line: "0x0A \<notin> set b \<Longrightarrow> split_nl (b @ 0x0A # r) = b # split_nl r"
  by (induction b) auto

lemma trim_nonblank: "\<not> is_js_space c \<Longrightarrow> trim (c # xs) \<noteq> []"
  by (auto simp add: trim_def dropWhile_eq_Nil_conv)

lemma trim_Nil: "trim [] = []"
  by (simp add: trim_def)

lemma chunk_lines_bodies:
  assumes "\<forall>b \<in> set bs. 0x0A \<notin> set b \<and> trim b \<noteq> []"
  shows "chunk_lines (concat (map (\<lambda>b. b @ [0x0A]) bs)) = bs"
proof -
  have "split_nl (concat (map (\<lambda>b. b @ [0x0A]) bs)) = bs @ [[]]"
    using assms by (induction bs) (simp_all add: split_nl_line)
  then show ?thesis
    using assms by (simp add: chunk_lines_def trim_Nil filter_id_conv)
qed

lemma finish_line_facts:
  "finish_line = butlast finish_line @ [0x0A]"
  "0x0A \<notin> set (butlast finish_line)"
  "\<not> starts_with (butlast finish_line) (asc ''0:'')"
  "trim (butlast finish_line) \<noteq> []"
  "well_formed finish_line"
  "hd finish_line \<noteq> 0xFEFF"
  by code_simp+

lemma asc_prefix_facts:
  "asc ''0:'' = [0x30, 0x3A]"
  by code_simp

lemma wire_line_body: "wire_line i = butlast (wire_line i) @ [0x0A]"
proof (cases i)
  case (Delta s)
  then show ?thesis by (simp add: butlast_append)
next
  case Finish
  then show ?thesis using finish_line_facts(1) by simp
qed

lemma delta_body: "butlast (wire_line (Delta s)) = asc ''0:'' @ QuoteJSONString s"
  by (simp add: butlast_append)

lemma wire_body_no_newline: "0x0A \<notin> set (butlast (wire_line i))"
proof (cases i)
  case (Delta s)
  then show ?thesis
    using quote_units_plain [of s]
    by (simp add: butlast_append QuoteJSONString_def asc_prefix_facts)
next
  case Finish
  then show ?thesis using finish_line_facts(2) by simp
qed

lemma wire_body_not_blank: "trim (butlast (wire_line i)) \<noteq> []"
proof (cases i)
  case (Delta s)
  have "\<not> is_js_space (0x30 :: cu)" by (simp add: is_js_space_def)
  then show ?thesis
    using Delta trim_nonblank [of "0x30"] by (simp add: butlast_append asc_prefix_facts)
next
  case Finish
  then show ?thesis using finish_line_facts(4) by simp
qed

lemma wire_line_well_formed: "well_formed (wire_line i)"
proof (cases i)
  case (Delta s)
  have p: "\<not> is_surrogate (0x30 :: cu)" "\<not> is_surrogate (0x3A :: cu)"
    "\<not> is_surrogate (0x22 :: cu)" "\<not> is_surrogate (0x0A :: cu)"
    by (simp_all add: is_surrogate_def)
  have "well_formed (quote_units s @ [0x22, 0x0A])"
    using quote_units_plain [of s] p by (intro well_formed_append) simp_all
  then show ?thesis
    using Delta p by (simp add: asc_prefix_facts QuoteJSONString_def well_formed_Cons)
next
  case Finish
  then show ?thesis using finish_line_facts(5) by simp
qed

lemma wire_line_hd: "wire_line i \<noteq> [] \<and> hd (wire_line i) \<noteq> 0xFEFF"
proof (cases i)
  case (Delta s)
  then show ?thesis by (simp add: asc_prefix_facts)
next
  case Finish
  then show ?thesis using finish_line_facts(1,6) by (metis snoc_eq_iff_butlast wire_line.simps(2))
qed

lemma group_text_hd:
  "g \<noteq> [] \<Longrightarrow> concat (map wire_line g) \<noteq> [] \<and> hd (concat (map wire_line g)) \<noteq> 0xFEFF"
  using wire_line_hd by (cases g) auto

lemma group_text_empty: "concat (map wire_line g) = [] \<longleftrightarrow> g = []"
  using wire_line_hd by (cases g) auto

lemma decode_group:
  "decode_stream (dstate 0 0 0 0x80 0xBF f) (encode (concat (map wire_line g)))
   = (concat (map wire_line g), dstate 0 0 0 0x80 0xBF (f \<or> g \<noteq> []))"
proof -
  have w: "well_formed (concat (map wire_line g))"
    by (rule well_formed_concat) (simp add: wire_line_well_formed)
  have h: "f \<or> concat (map wire_line g) = [] \<or> hd (concat (map wire_line g)) \<noteq> 0xFEFF"
    using group_text_hd [of g] by (cases "g = []") simp_all
  show ?thesis
    using decode_encode [OF w h] by (simp only: group_text_empty)
qed

lemma group_lines: "chunk_lines (concat (map wire_line g)) = map (\<lambda>i. butlast (wire_line i)) g"
proof -
  have "concat (map wire_line g)
        = concat (map (\<lambda>b. b @ [0x0A]) (map (\<lambda>i. butlast (wire_line i)) g))"
    using wire_line_body by (induction g) simp_all
  then show ?thesis
    using chunk_lines_bodies [of "map (\<lambda>i. butlast (wire_line i)) g"]
    by (simp add: wire_body_no_newline wire_body_not_blank)
qed

lemma render_delta:
  "render_lines P aid full ((asc ''0:'' @ QuoteJSONString s) # ls)
   = (let (full2, es) = render_lines P aid (full @ s) ls
      in (full2, SetContent aid (full @ s) # es))"
proof -
  have "length (asc ''0:'') = 2" by (simp add: asc_prefix_facts)
  then show ?thesis
    by (simp add: starts_with_append JSON_parse_QuoteJSONString to_string_def)
qed

lemma render_bodies:
  "render_lines P aid full (map (\<lambda>i. butlast (wire_line i)) items)
   = (full @ concat (map item_text items), updates aid full items)"
proof (induction items arbitrary: full)
  case Nil
  then show ?case by simp
next
  case (Cons i items)
  show ?case
  proof (cases i)
    case (Delta s)
    then show ?thesis using Cons [of "full @ s"] by (simp only: list.map delta_body render_delta) simp
  next
    case Finish
    then show ?thesis using Cons [of full] finish_line_facts(3) by simp
  qed
qed

lemma updates_append:
  "updates aid full (a @ b) = updates aid full a @ updates aid (full @ concat (map item_text a)) b"
  by (induction aid full a rule: updates.induct) simp_all

lemma read_loop_groups:
  "read_loop P aid (dstate 0 0 0 0x80 0xBF f) full
     (map (\<lambda>g. encode (concat (map wire_line g))) groups)
   = (full @ concat (map item_text (concat groups)), updates aid full (concat groups))"
proof (induction groups arbitrary: f full)
  case Nil
  then show ?case by simp
next
  case (Cons g groups)
  show ?case
    using Cons [of "f \<or> g \<noteq> []" "full @ concat (map item_text g)"]
    by (simp add: decode_group group_lines render_bodies updates_append)
qed

lemma updates_deltas:
  "updates aid full (map Delta Ds @ [Finish])
   = map (\<lambda>n. SetContent aid (full @ concat (take (Suc n) Ds))) [0..<length Ds]"
proof (induction Ds arbitrary: full)
  case Nil
  then show ?case by simp
next
  case (Cons d Ds)
  have "[0..<length (d # Ds)] = 0 # map Suc [0..<length Ds]"
    by (simp add: upt_conv_Cons map_Suc_upt del: upt_Suc)
  then show ?case using Cons [of "full @ d"] by (simp add: comp_def del: upt_Suc)
qed

lemma texts_deltas: "concat (map item_text (map Delta Ds @ [Finish])) = concat Ds"
  by (induction Ds) simp_all

lemma scalar_values_append:
  "well_formed a \<Longrightarrow> scalar_values (a @ b) = scalar_values a @ scalar_values b"
proof (induction a rule: well_formed.induct)
  case 1
  then show ?case by simp
next
  case (2 c)
  then show ?case by (cases b) (auto dest: high_is_surrogate)
next
  case (3 c d cs)
  then show ?case by (auto split: if_splits)
qed

lemma encode_append: "well_formed a \<Longrightarrow> encode (a @ b) = encode a @ encode b"
  by (simp add: encode_def scalar_values_append)

lemma encode_groups:
  "concat (map (\<lambda>g. encode (concat (map wire_line g))) groups)
   = encode (concat (map wire_line (concat groups)))"
proof (induction groups)
  case Nil
  then show ?case by (simp add: encode_def)
next
  case (Cons g groups)
  have "well_formed (concat (map wire_line g))"
    by (rule well_formed_concat) (simp add: wire_line_well_formed)
  then show ?case using Cons by (simp add: encode_append)
qed

lemma run_updates_last:
  assumes "messages st \<noteq> []" and "m_id (last (messages st)) = aid"
    and "m_content (last (messages st)) = full"
  shows "messages (run_effects st (updates aid full items)) \<noteq> []
     \<and> last (messages (run_effects st (updates aid full items)))
         = (last (messages st))\<lparr>m_content := full @ concat (map item_text items)\<rparr>"
  using assms
proof (induction aid full items arbitrary: st rule: updates.induct)
  case (1 aid full)
  then show ?case by (simp add: run_effects_Nil)
next
  case (2 aid full s items)
  let ?st = "apply_effect st (SetContent aid (full @ s))"
  have a: "messages ?st \<noteq> []" using 2(2) by simp
  have b: "last (messages ?st) = (last (messages st))\<lparr>m_content := full @ s\<rparr>"
    using 2(2,3) by (simp add: last_map)
  show ?case
    using 2(1) [of ?st] a b 2(3) by (simp add: run_effects_Cons)
next
  case (3 aid full items)
  then show ?case by simp
qed

text \<open>
  Claim C7 (delta round trip). For every content string \<open>s\<close> (any sequence of code units:
  quotes, backslashes, newlines, non-ASCII characters, surrogate pairs and lone surrogates
  included), an event with the non-empty content \<open>s\<close> makes the transformer enqueue the line
  \<open>0:\<close> followed by \<open>JSON.stringify(s)\<close> and a newline; that text is a single line for the
  renderer's \<open>split\<close>; from that line the renderer appends exactly \<open>s\<close> to its accumulated
  content and publishes the result; and the same holds through the bytes, when the encoded line
  is read as a chunk by a decoder that holds no partial sequence. In particular
  \<open>JSON.stringify("hello")\<close> is \<open>hello\<close> between quotes, and the line \<open>0:"hello"\<close> yields the text
  \<open>hello\<close>.
\<close>

theorem delta_round_trip:
  "(s \<noteq> [] \<longrightarrow> emitted P (event s) = [asc ''0:'' @ QuoteJSONString s @ [0x0A]])
   \<and> chunk_lines (asc ''0:'' @ QuoteJSONString s @ [0x0A]) = [asc ''0:'' @ QuoteJSONString s]
   \<and> render_lines P aid full [asc ''0:'' @ QuoteJSONString s] = (full @ s, [SetContent aid (full @ s)])
   \<and> read_loop P aid (dstate 0 0 0 0x80 0xBF f) full [encode (asc ''0:'' @ QuoteJSONString s @ [0x0A])]
       = (full @ s, [SetContent aid (full @ s)])
   \<and> QuoteJSONString (asc ''hello'') = [0x22] @ asc ''hello'' @ [0x22]
   \<and> render_lines P aid [] [asc ''0:'' @ [0x22] @ asc ''hello'' @ [0x22]]
       = (asc ''hello'', [SetContent aid (asc ''hello'')])"
proof -
  have a: "s \<noteq> [] \<longrightarrow> emitted P (event s) = [asc ''0:'' @ QuoteJSONString s @ [0x0A]]"
    by (simp add: emitted_event delta_line_def JSON_stringify_def)
  have b: "chunk_lines (asc ''0:'' @ QuoteJSONString s @ [0x0A]) = [asc ''0:'' @ QuoteJSONString s]"
    using group_lines [of "[Delta s]"] by (simp add: butlast_append)
  have c: "\<And>t g. render_lines P aid g [asc ''0:'' @ QuoteJSONString t] = (g @ t, [SetContent aid (g @ t)])"
    by (simp only: render_delta) simp
  have d: "read_loop P aid (dstate 0 0 0 0x80 0xBF f) full
       [encode (asc ''0:'' @ QuoteJSONString s @ [0x0A])] = (full @ s, [SetContent aid (full @ s)])"
    using read_loop_groups [of P aid f full "[[Delta s]]"] by simp
  have e: "QuoteJSONString (asc ''hello'') = [0x22] @ asc ''hello'' @ [0x22]"
    by code_simp
  have g: "render_lines P aid [] [asc ''0:'' @ [0x22] @ asc ''hello'' @ [0x22]]
       = (asc ''hello'', [SetContent aid (asc ''hello'')])"
    using c [of "[]" "asc ''hello''"] by (simp only: e append_Nil)
  show ?thesis using a b c d e g by blast
qed

lemma escapes_sample_quoted:
  "escapes_sample \<noteq> []"
  "QuoteJSONString escapes_sample
     = [0x22, 0x5C, 0x22, 0x5C, 0x5C, 0x5C, 0x6E, 0xE9, 0xD83D, 0xDE00,
        0x5C, 0x75, 0x64, 0x63, 0x30, 0x30, 0x22]"
  by (simp_all add: escapes_sample_def QuoteJSONString_def quote_unit_def unicode_escape_def
      hex_digit_def is_high_surrogate_def is_low_surrogate_def)

theorem delta_round_trip_witness:
  "escapes_sample \<noteq> []
   \<and> emitted sample_platform (event escapes_sample)
       = [asc ''0:'' @ [0x22, 0x5C, 0x22, 0x5C, 0x5C, 0x5C, 0x6E, 0xE9, 0xD83D, 0xDE00,
                         0x5C, 0x75, 0x64, 0x63, 0x30, 0x30, 0x22] @ [0x0A]]
   \<and> read_loop sample_platform (asc ''assistant-18'') new_decoder []
         (map encode (emitted sample_platform (event escapes_sample)))
       = (escapes_sample, [SetContent (asc ''assistant-18'') escapes_sample])"
  using delta_round_trip [of escapes_sample sample_platform "asc ''assistant-18''" "[]" False]
    escapes_sample_quoted
  by (simp add: new_decoder_dstate)

lemma hello_cut_facts:
  "hello_cut_head @ hello_cut_tail = wire_line (Delta (asc ''hello'')) @ finish_line"
  "well_formed hello_cut_head" "hello_cut_head \<noteq> []" "hd hello_cut_head \<noteq> 0xFEFF"
  "well_formed hello_cut_tail"
  "chunk_lines hello_cut_head = [hello_cut_head]"
  "chunk_lines hello_cut_tail = [asc ''llo'' @ [0x22], butlast finish_line]"
  "starts_with hello_cut_head (asc ''0:'')"
  "JSON_parse (drop 2 hello_cut_head) = None"
  "\<not> starts_with (asc ''llo'' @ [0x22]) (asc ''0:'')"
  by code_simp+

lemma event_cut_facts:
  "event_cut_head @ event_cut_tail = event (asc ''x'') @ [0x0A]"
  "well_formed event_cut_head" "event_cut_head \<noteq> []" "hd event_cut_head \<noteq> 0xFEFF"
  "well_formed event_cut_tail"
  "chunk_lines event_cut_head = [event_cut_head]"
  "chunk_lines event_cut_tail = [butlast event_cut_tail]"
  "event_cut_head = asc ''data: '' @ drop 6 event_cut_head"
  "malformed (drop 6 event_cut_head)"
  "\<not> starts_with (butlast event_cut_tail) (asc ''data: '')"
  "well_formed (event (asc ''x'') @ [0x0A])" "hd (event (asc ''x'') @ [0x0A]) \<noteq> 0xFEFF"
  "chunk_lines (event (asc ''x'') @ [0x0A]) = [event (asc ''x'')]"
  by code_simp+


text \<open>
  Claim C1 (chunk boundaries). As stated the claim fails: neither loop keeps the unfinished last
  line of a chunk for the next chunk, each splits the text of every chunk on its own. The bytes
  of the stream \<open>0:"hello"\<close>, terminal line, read as one chunk give the content \<open>hello\<close>; the
  same bytes read as the two chunks \<open>0:"he\<close> and \<open>llo"\<close>, newline, terminal line, give the empty
  content and no update (the first piece is not JSON, the second has no \<open>0:\<close> prefix). In the
  handler likewise: an upstream event read as one chunk gives its \<open>0:\<close> line, and read as two
  chunks cut after its twentieth character gives nothing.
\<close>

theorem split_inside_line_counterexample:
  "\<forall>P aid.
     encode hello_cut_head @ encode hello_cut_tail
       = encode (asc ''0:'' @ QuoteJSONString (asc ''hello'') @ [0x0A] @ finish_line)
     \<and> read_loop P aid new_decoder []
           [encode (asc ''0:'' @ QuoteJSONString (asc ''hello'') @ [0x0A] @ finish_line)]
         = (asc ''hello'', [SetContent aid (asc ''hello'')])
     \<and> read_loop P aid new_decoder [] [encode hello_cut_head, encode hello_cut_tail] = ([], [])
     \<and> encode event_cut_head @ encode event_cut_tail = encode (event (asc ''x'') @ [0x0A])
     \<and> pipeThrough P new_transformer [encode (event (asc ''x'') @ [0x0A])]
         = [encode (asc ''0:'' @ QuoteJSONString (asc ''x'') @ [0x0A])]
     \<and> pipeThrough P new_transformer [encode event_cut_head, encode event_cut_tail] = []"
proof (intro allI)
  fix P :: platform and aid :: jstr
  have a: "encode hello_cut_head @ encode hello_cut_tail
       = encode (asc ''0:'' @ QuoteJSONString (asc ''hello'') @ [0x0A] @ finish_line)"
    using encode_append [of hello_cut_head hello_cut_tail] hello_cut_facts(1,2) by simp
  have b: "read_loop P aid new_decoder []
           [encode (asc ''0:'' @ QuoteJSONString (asc ''hello'') @ [0x0A] @ finish_line)]
         = (asc ''hello'', [SetContent aid (asc ''hello'')])"
    using read_loop_groups [of P aid False "[]" "[[Delta (asc ''hello''), Finish]]"]
    by (simp add: new_decoder_dstate)
  have d1: "decode_stream new_decoder (encode hello_cut_head)
      = (hello_cut_head, dstate 0 0 0 0x80 0xBF True)"
    using decode_encode [of hello_cut_head False] hello_cut_facts(2,3,4)
    by (simp add: new_decoder_dstate)
  have d2: "decode_stream (dstate 0 0 0 0x80 0xBF True) (encode hello_cut_tail)
      = (hello_cut_tail, dstate 0 0 0 0x80 0xBF True)"
    using decode_encode [of hello_cut_tail True] hello_cut_facts(5) by simp
  have c: "read_loop P aid new_decoder [] [encode hello_cut_head, encode hello_cut_tail] = ([], [])"
    using hello_cut_facts(8,9,10) finish_line_facts(3)
    by (simp add: d1 d2 hello_cut_facts(6,7))
  have d: "encode event_cut_head @ encode event_cut_tail = encode (event (asc ''x'') @ [0x0A])"
    using encode_append [of event_cut_head event_cut_tail] event_cut_facts(1,2) by simp
  have n: "asc ''x'' \<noteq> []" by (simp add: asc_def)
  have "stream_lines new_decoder [encode (event (asc ''x'') @ [0x0A])] = [event (asc ''x'')]"
    using stream_lines_single [of "event (asc ''x'') @ [0x0A]"] event_cut_facts(11,12,13) by simp
  then have e: "pipeThrough P new_transformer [encode (event (asc ''x'') @ [0x0A])]
         = [encode (asc ''0:'' @ QuoteJSONString (asc ''x'') @ [0x0A])]"
    using n
    by (simp add: pipeThrough_out new_transformer_def emitted_event delta_line_def
        JSON_stringify_def)
  have e1: "decode_stream new_decoder (encode event_cut_head)
      = (event_cut_head, dstate 0 0 0 0x80 0xBF True)"
    using decode_encode [of event_cut_head False] event_cut_facts(2,3,4)
    by (simp add: new_decoder_dstate)
  have e2: "decode_stream (dstate 0 0 0 0x80 0xBF True) (encode event_cut_tail)
      = (event_cut_tail, dstate 0 0 0 0x80 0xBF True)"
    using decode_encode [of event_cut_tail True] event_cut_facts(5) by simp
  have l: "stream_lines new_decoder [encode event_cut_head, encode event_cut_tail]
      = [event_cut_head, butlast event_cut_tail]"
    by (simp add: e1 e2 event_cut_facts(6,7))
  have m1: "emitted P event_cut_head = []"
    using emitted_malformed [OF event_cut_facts(9), of P] event_cut_facts(8) by simp
  have m2: "emitted P (butlast event_cut_tail) = []"
    using event_cut_facts(10) by (simp add: emitted_def transform_line_def)
  have f: "pipeThrough P new_transformer [encode event_cut_head, encode event_cut_tail] = []"
    by (simp add: pipeThrough_out new_transformer_def l m1 m2 del: stream_lines.simps)
  show "encode hello_cut_head @ encode hello_cut_tail
       = encode (asc ''0:'' @ QuoteJSONString (asc ''hello'') @ [0x0A] @ finish_line)
     \<and> read_loop P aid new_decoder []
           [encode (asc ''0:'' @ QuoteJSONString (asc ''hello'') @ [0x0A] @ finish_line)]
         = (asc ''hello'', [SetContent aid (asc ''hello'')])
     \<and> read_loop P aid new_decoder [] [encode hello_cut_head, encode hello_cut_tail] = ([], [])
     \<and> encode event_cut_head @ encode event_cut_tail = encode (event (asc ''x'') @ [0x0A])
     \<and> pipeThrough P new_transformer [encode (event (asc ''x'') @ [0x0A])]
         = [encode (asc ''0:'' @ QuoteJSONString (asc ''x'') @ [0x0A])]
     \<and> pipeThrough P new_transformer [encode event_cut_head, encode event_cut_tail] = []"
    using a b c d e f by blast
qed

lemma turn_effects:
  assumes "\<not> (trim (input st) = [] \<or> isLoading st)"
    and "fetch (map to_request
           (messages st @ [\<lparr>m_id = asc ''user-'' @ digits now1, m_role = User, m_content = input st\<rparr>]))
         = ChatResponse code (Some (chunks, Closed))"
    and "response_ok code"
  shows "handleSubmit P fetch now1 now2 st =
       [AppendMessage \<lparr>m_id = asc ''user-'' @ digits now1, m_role = User, m_content = input st\<rparr>,
        SetIsLoading True,
        AppendMessage \<lparr>m_id = asc ''assistant-'' @ digits now2, m_role = Assistant, m_content = []\<rparr>,
        Fetch (map to_request
           (messages st @ [\<lparr>m_id = asc ''user-'' @ digits now1, m_role = User, m_content = input st\<rparr>])),
        SetInput []]
       @ snd (read_loop P (asc ''assistant-'' @ digits now2) new_decoder [] chunks)
       @ [SetIsLoading False]"
  using assms by (simp add: handleSubmit_def sendMessage_def Let_def)

text \<open>
  Claim C1, amended. For delta lines \<open>D1..Dn\<close> followed by the terminal line, and every way of
  grouping these lines into consecutive chunks (each chunk a whole number of lines, possibly
  none): the chunks are a partition of the bytes of the stream; reading them, the renderer ends
  with the accumulated content \<open>D1 + ... + Dn\<close>, having published the content after each delta
  line; reading the stream as a single chunk gives the same content and the same updates; and
  a turn whose response is read in these chunks ends with the assistant message holding
  \<open>D1 + ... + Dn\<close>.
\<close>

theorem line_end_chunks:
  assumes "concat groups = map Delta Ds @ [Finish]"
  shows "concat (map (\<lambda>g. encode (concat (map wire_line g))) groups)
       = encode (concat (map wire_line (map Delta Ds @ [Finish])))
     \<and> read_loop P aid new_decoder [] (map (\<lambda>g. encode (concat (map wire_line g))) groups)
       = (concat Ds, map (\<lambda>n. SetContent aid (concat (take (Suc n) Ds))) [0..<length Ds])
     \<and> read_loop P aid new_decoder [] [encode (concat (map wire_line (map Delta Ds @ [Finish])))]
       = (concat Ds, map (\<lambda>n. SetContent aid (concat (take (Suc n) Ds))) [0..<length Ds])
     \<and> (\<not> (trim (input st) = [] \<or> isLoading st)
        \<and> fetch (map to_request
             (messages st
              @ [\<lparr>m_id = asc ''user-'' @ digits now1, m_role = User, m_content = input st\<rparr>]))
           = ChatResponse code
               (Some (map (\<lambda>g. encode (concat (map wire_line g))) groups, Closed))
        \<and> response_ok code
        \<longrightarrow> last (messages (run_effects st (handleSubmit P fetch now1 now2 st)))
            = \<lparr>m_id = asc ''assistant-'' @ digits now2, m_role = Assistant,
               m_content = concat Ds\<rparr>)"
proof -
  let ?chunks = "map (\<lambda>g. encode (concat (map wire_line g))) groups"
  let ?ups = "\<lambda>i. map (\<lambda>n. SetContent i (concat (take (Suc n) Ds))) [0..<length Ds]"
  have a: "concat ?chunks = encode (concat (map wire_line (map Delta Ds @ [Finish])))"
    using encode_groups [of groups] assms by simp
  have u: "\<And>i. updates i [] (concat groups) = ?ups i"
    using updates_deltas [of _ "[]" Ds] assms by simp
  have t: "concat (map item_text (concat groups)) = concat Ds"
    by (simp only: assms texts_deltas)
  have b: "\<And>i. read_loop P i new_decoder [] ?chunks = (concat Ds, ?ups i)"
    by (simp only: new_decoder_dstate read_loop_groups t u append_Nil)
  have "read_loop P aid (dstate 0 0 0 0x80 0xBF False) []
         (map (\<lambda>g. encode (concat (map wire_line g))) [map Delta Ds @ [Finish]])
       = ([] @ concat (map item_text (concat [map Delta Ds @ [Finish]])),
          updates aid [] (concat [map Delta Ds @ [Finish]]))"
    by (rule read_loop_groups)
  then have c: "read_loop P aid new_decoder []
         [encode (concat (map wire_line (map Delta Ds @ [Finish])))]
       = (concat Ds, ?ups aid)"
    by (simp only: list.map concat.simps append_Nil2 append_Nil new_decoder_dstate texts_deltas
        updates_deltas)
  have d: "last (messages (run_effects st (handleSubmit P fetch now1 now2 st)))
            = \<lparr>m_id = asc ''assistant-'' @ digits now2, m_role = Assistant,
               m_content = concat Ds\<rparr>"
    if g: "\<not> (trim (input st) = [] \<or> isLoading st)"
      and f: "fetch (map to_request
             (messages st
              @ [\<lparr>m_id = asc ''user-'' @ digits now1, m_role = User, m_content = input st\<rparr>]))
           = ChatResponse code (Some (?chunks, Closed))"
      and k: "response_ok code"
  proof -
    let ?aid = "asc ''assistant-'' @ digits now2"
    let ?u = "\<lparr>m_id = asc ''user-'' @ digits now1, m_role = User, m_content = input st\<rparr>"
    let ?ph = "\<lparr>m_id = ?aid, m_role = Assistant, m_content = []\<rparr>"
    let ?st1 = "st\<lparr>messages := messages st @ [?u, ?ph], isLoading := True, input := []\<rparr>"
    have h: "handleSubmit P fetch now1 now2 st =
       [AppendMessage ?u, SetIsLoading True, AppendMessage ?ph,
        Fetch (map to_request (messages st @ [?u])), SetInput []]
       @ updates ?aid [] (concat groups) @ [SetIsLoading False]"
      using turn_effects [of st fetch now1 code ?chunks P now2, OF g f k] b [of ?aid] u [of ?aid]
      by simp
    have s1: "run_effects st [AppendMessage ?u, SetIsLoading True, AppendMessage ?ph,
        Fetch (map to_request (messages st @ [?u])), SetInput []] = ?st1"
      by (simp add: run_effects_def)
    have r: "messages (run_effects ?st1 (updates ?aid [] (concat groups))) \<noteq> []
       \<and> last (messages (run_effects ?st1 (updates ?aid [] (concat groups))))
           = (last (messages ?st1))\<lparr>m_content := [] @ concat (map item_text (concat groups))\<rparr>"
      by (rule run_updates_last) simp_all
    have "messages (run_effects st (handleSubmit P fetch now1 now2 st))
        = messages (run_effects ?st1 (updates ?aid [] (concat groups)))"
      by (simp only: h run_effects_append s1) (simp add: run_effects_def)
    then show ?thesis using r t by simp
  qed
  show ?thesis using a b [of aid] c d by blast
qed


lemma scenario_texts:
  "asc ''Yes'' @ asc '', we'' = asc ''Yes, we''"
  "asc ''Yes'' @ asc '', we'' @ asc '' do.'' = asc ''Yes, we do.''"
  by (simp_all add: asc_def)

lemma sample_gate_open: "\<not> (trim (input sample_state) = [] \<or> isLoading sample_state)"
  using trim_sample by (simp add: sample_state_def)

lemma ok_200: "response_ok 200"
  by (simp add: response_ok_def)

theorem line_end_chunks_witness:
  "concat [[Delta (asc ''Yes''), Delta (asc '', we'')], [Delta (asc '' do.''), Finish]]
     = map Delta [asc ''Yes'', asc '', we'', asc '' do.''] @ [Finish]
   \<and> read_loop sample_platform (asc ''assistant-'' @ digits 18) new_decoder []
       [encode (asc ''0:'' @ QuoteJSONString (asc ''Yes'') @ [0x0A]
                @ asc ''0:'' @ QuoteJSONString (asc '', we'') @ [0x0A]),
        encode (asc ''0:'' @ QuoteJSONString (asc '' do.'') @ [0x0A] @ finish_line)]
     = (asc ''Yes, we do.'',
        [SetContent (asc ''assistant-'' @ digits 18) (asc ''Yes''),
         SetContent (asc ''assistant-'' @ digits 18) (asc ''Yes, we''),
         SetContent (asc ''assistant-'' @ digits 18) (asc ''Yes, we do.'')])
   \<and> last (messages (run_effects sample_state
        (handleSubmit sample_platform
           (\<lambda>r. ChatResponse 200
              (Some ([encode (asc ''0:'' @ QuoteJSONString (asc ''Yes'') @ [0x0A]
                              @ asc ''0:'' @ QuoteJSONString (asc '', we'') @ [0x0A]),
                      encode (asc ''0:'' @ QuoteJSONString (asc '' do.'') @ [0x0A] @ finish_line)],
                     Closed)))
           17 18 sample_state)))
     = \<lparr>m_id = asc ''assistant-'' @ digits 18, m_role = Assistant,
        m_content = asc ''Yes, we do.''\<rparr>"
  using line_end_chunks
    [of "[[Delta (asc ''Yes''), Delta (asc '', we'')], [Delta (asc '' do.''), Finish]]"
      "[asc ''Yes'', asc '', we'', asc '' do.'']" sample_platform
      "asc ''assistant-'' @ digits 18" sample_state
      "\<lambda>r. ChatResponse 200
         (Some ([encode (asc ''0:'' @ QuoteJSONString (asc ''Yes'') @ [0x0A]
                         @ asc ''0:'' @ QuoteJSONString (asc '', we'') @ [0x0A]),
                 encode (asc ''0:'' @ QuoteJSONString (asc '' do.'') @ [0x0A] @ finish_line)],
                Closed))"
      17 200 18]
    scenario_texts sample_gate_open ok_200
  by simp

end
